theory Spec2Isabelle
  imports Main
begin

section \<open>Data model of \<^verbatim>\<open>packages/server/src/router/routers.ts\<close>\<close>

text \<open>
  Routers are JavaScript objects that point at each other (\<^verbatim>\<open>__parentRouter\<close>,
  \<^verbatim>\<open>__children\<close>, the \<^verbatim>\<open>router\<close> field of a complete path) and that share their
  handler objects with the entries of their ancestors' tables
  (\<^verbatim>\<open>handlers: child.__handlers\<close>). They are therefore kept in an explicit store:
  a reference is a natural number, routers and handler objects live in two maps from
  references to values, and every method takes the store and returns the new one.
\<close>

type_synonym ref = nat

datatype method_type = MGet | MPost | MPut | MPatch | MDelete | MHead | MOptions | MAll

text \<open>A handler object \<^verbatim>\<open>{ [method in MethodTypes]?: HandlerType }\<close>.\<close>

type_synonym 'h handler_obj = "method_type \<Rightarrow> 'h option"

definition all_methods :: "method_type list" where
  "all_methods = [MGet, MPost, MPut, MPatch, MDelete, MHead, MOptions, MAll]"

definition object_keys_methods :: "'h handler_obj \<Rightarrow> method_type list" where
  "object_keys_methods hs = filter (\<lambda>m. hs m \<noteq> None) all_methods"

record path_part =
  part :: string
  isUrlParam :: bool

text \<open>
  A compiled \<^verbatim>\<open>RegExp\<close> is represented by its source text; the pattern compiler and
  the matcher of the host are outside the embedding.
\<close>

record url_param =
  up_type :: "string list"
  up_regex :: string

record query_param =
  qp_type :: "string list"
  qp_isOptional :: bool
  qp_isArray :: bool
  qp_regex :: "string option"

section \<open>The path template scanner (\<^verbatim>\<open>BaseRouter.extract...FromPath\<close>)\<close>

text \<open>
  The scanner works on \<^verbatim>\<open>path.split('')\<close> with an index that it never checks against
  the length inside a \<^verbatim>\<open>< >\<close> or \<^verbatim>\<open>{ }\<close> group. Reading past the end gives
  \<^verbatim>\<open>undefined\<close> (\<open>None\<close>), which differs from every character and which \<^verbatim>\<open>+=\<close>
  appends as the text \<^verbatim>\<open>undefined\<close>. Every \<^verbatim>\<open>while\<close> loop is a function with
  fuel: \<open>None\<close> says that the fuel ran out before the loop ended. The index and
  the strings are unbounded here; an engine ends a run that does not end here when the
  string it appends to grows beyond what it can hold.
\<close>

definition charAt :: "string \<Rightarrow> nat \<Rightarrow> char option" where
  "charAt splittedPath index =
     (if index < length splittedPath then Some (splittedPath ! index) else None)"

definition append_char :: "string \<Rightarrow> char option \<Rightarrow> string" where
  "append_char s c = (case c of Some ch \<Rightarrow> s @ [ch] | None \<Rightarrow> s @ ''undefined'')"

definition ignoreSpaces :: "string \<Rightarrow> nat \<Rightarrow> nat" where
  "ignoreSpaces splittedPath index =
     (if charAt splittedPath index = Some CHR '' '' then Suc index else index)"

text \<open>
  A JavaScript object used as a record of parameters: \<^verbatim>\<open>params[name] = v\<close> replaces
  the value of a present key where it stands and appends a new key. \<^verbatim>\<open>Object.keys\<close>
  and \<^verbatim>\<open>Object.entries\<close> list the keys that are array indices first, in ascending
  numeric order, and then the other keys in insertion order. Keys are taken to be
  ordinary property names.
\<close>

fun obj_set :: "(string \<times> 'v) list \<Rightarrow> string \<Rightarrow> 'v \<Rightarrow> (string \<times> 'v) list" where
  "obj_set [] k v = [(k, v)]"
| "obj_set ((k', v') # kvs) k v = (if k' = k then (k, v) # kvs else (k', v') # obj_set kvs k v)"

definition dec_value :: "string \<Rightarrow> nat" where
  "dec_value s = foldl (\<lambda>n c. 10 * n + (of_char c - 48)) 0 s"

definition is_array_index :: "string \<Rightarrow> bool" where
  "is_array_index s =
     (s \<noteq> [] \<and> list_all (\<lambda>c. c \<in> set ''0123456789'') s
      \<and> (s = ''0'' \<or> hd s \<noteq> CHR ''0'') \<and> dec_value s < 4294967295)"

definition object_entries :: "(string \<times> 'v) list \<Rightarrow> (string \<times> 'v) list" where
  "object_entries obj =
     sort_key (\<lambda>kv. dec_value (fst kv)) (filter (\<lambda>kv. is_array_index (fst kv)) obj)
     @ filter (\<lambda>kv. \<not> is_array_index (fst kv)) obj"

definition object_keys :: "(string \<times> 'v) list \<Rightarrow> string list" where
  "object_keys obj = map fst (object_entries obj)"

subsection \<open>\<^verbatim>\<open>extractUrlParamsFromPath\<close>\<close>

text \<open>
  The loops \<^verbatim>\<open>while (splittedPath[index] !== c) { ignoreSpaces(); acc += splittedPath[index]; index++; }\<close>
  of lines 283, 367, 374 and 382 differ in the closing character \<open>c\<close> and in the
  variable they append to.
\<close>

fun scan_until :: "char \<Rightarrow> nat \<Rightarrow> string \<Rightarrow> nat \<Rightarrow> string \<Rightarrow> (nat \<times> string) option" where
  "scan_until c 0 splittedPath index acc = None"
| "scan_until c (Suc fuel) splittedPath index acc =
     (if charAt splittedPath index = Some c then Some (index, acc)
      else let i = ignoreSpaces splittedPath index
           in scan_until c fuel splittedPath (Suc i) (append_char acc (charAt splittedPath i)))"

text \<open>The loop of line 362, entered after a \<^verbatim>\<open>:\<close>: a regex in braces or a type.\<close>

fun url_type_loop ::
  "nat \<Rightarrow> string \<Rightarrow> nat \<Rightarrow> string \<Rightarrow> string \<Rightarrow> (nat \<times> string \<times> string) option" where
  "url_type_loop 0 splittedPath index urlParamType urlParamRegex = None"
| "url_type_loop (Suc fuel) splittedPath index urlParamType urlParamRegex =
     (if charAt splittedPath index = Some CHR ''>''
      then Some (index, urlParamType, urlParamRegex)
      else
        let i1 = ignoreSpaces splittedPath index;
            i2 = (if charAt splittedPath i1 = Some CHR '':'' then Suc i1 else i1)
        in if charAt splittedPath i2 = Some CHR ''{''
           then (case scan_until CHR ''}'' fuel splittedPath (Suc i2) urlParamRegex of
                   None \<Rightarrow> None
                 | Some (i3, rx) \<Rightarrow> url_type_loop fuel splittedPath (Suc i3) urlParamType rx)
           else (case scan_until CHR ''>'' fuel splittedPath i2 urlParamType of
                   None \<Rightarrow> None
                 | Some (i3, ty) \<Rightarrow> url_type_loop fuel splittedPath i3 ty urlParamRegex))"

text \<open>The loop of line 356.\<close>

fun url_param_loop ::
  "nat \<Rightarrow> string \<Rightarrow> nat \<Rightarrow> string \<Rightarrow> string \<Rightarrow> string
     \<Rightarrow> (nat \<times> string \<times> string \<times> string) option" where
  "url_param_loop 0 splittedPath index urlParamName urlParamType urlParamRegex = None"
| "url_param_loop (Suc fuel) splittedPath index urlParamName urlParamType urlParamRegex =
     (if charAt splittedPath index = Some CHR ''>''
      then Some (index, urlParamName, urlParamType, urlParamRegex)
      else
        let i1 = ignoreSpaces splittedPath index
        in if charAt splittedPath i1 = Some CHR '':''
           then (case url_type_loop fuel splittedPath (Suc i1) urlParamType urlParamRegex of
                   None \<Rightarrow> None
                 | Some (i2, ty, rx) \<Rightarrow> url_param_loop fuel splittedPath i2 urlParamName ty rx)
           else (case scan_until CHR '':'' fuel splittedPath i1 urlParamName of
                   None \<Rightarrow> None
                 | Some (i2, name) \<Rightarrow>
                     url_param_loop fuel splittedPath i2 name urlParamType urlParamRegex))"

definition extractUrlParamsFromPath ::
  "nat \<Rightarrow> string \<Rightarrow> (string \<times> url_param) list \<Rightarrow> nat
     \<Rightarrow> (nat \<times> (string \<times> url_param) list) option" where
  "extractUrlParamsFromPath fuel splittedPath params initialIndex =
     (case url_param_loop fuel splittedPath (Suc initialIndex) [] [] [] of
        None \<Rightarrow> None
      | Some (index, urlParamName, urlParamType, urlParamRegex) \<Rightarrow>
          Some (Suc index,
                obj_set params urlParamName
                  \<lparr>up_type = [urlParamType], up_regex = urlParamRegex\<rparr>))"

subsection \<open>\<^verbatim>\<open>extractQueryParamsFromPath\<close>\<close>

definition hasNotReachedEndOrNextQueryParam :: "string \<Rightarrow> nat \<Rightarrow> bool" where
  "hasNotReachedEndOrNextQueryParam splittedPath index =
     (charAt splittedPath index \<noteq> Some CHR ''&'' \<and> index < length splittedPath)"

text \<open>The variables of one turn of the loop of line 269.\<close>

record query_scan =
  qs_index :: nat
  queryParamName :: string
  queryParamType :: string
  queryParamRegex :: string
  queryParamTypes :: "string list"
  qs_isArray :: bool
  qs_isOptional :: bool

text \<open>The loop of line 300, inside parentheses.\<close>

fun query_paren_loop :: "nat \<Rightarrow> string \<Rightarrow> query_scan \<Rightarrow> query_scan option" where
  "query_paren_loop 0 splittedPath st = None"
| "query_paren_loop (Suc fuel) splittedPath st =
     (if charAt splittedPath (qs_index st) \<noteq> Some CHR '')''
         \<and> qs_index st < length splittedPath
      then
        let i = ignoreSpaces splittedPath (qs_index st)
        in if charAt splittedPath i = Some CHR ''|''
           then query_paren_loop fuel splittedPath
                  (st\<lparr>qs_index := Suc i,
                      queryParamTypes := queryParamTypes st @ [queryParamType st],
                      queryParamType := []\<rparr>)
           else query_paren_loop fuel splittedPath
                  (st\<lparr>qs_index := Suc i,
                      queryParamType := append_char (queryParamType st) (charAt splittedPath i)\<rparr>)
      else Some st)"

text \<open>The loop of line 291, after the \<^verbatim>\<open>=\<close>: the type and its modifiers.\<close>

fun query_type_loop :: "nat \<Rightarrow> string \<Rightarrow> query_scan \<Rightarrow> query_scan option" where
  "query_type_loop 0 splittedPath st = None"
| "query_type_loop (Suc fuel) splittedPath st =
     (if hasNotReachedEndOrNextQueryParam splittedPath (qs_index st)
      then
        let i = ignoreSpaces splittedPath (qs_index st)
        in if charAt splittedPath i = Some CHR ''?''
           then query_type_loop fuel splittedPath (st\<lparr>qs_index := Suc i, qs_isOptional := True\<rparr>)
           else if charAt splittedPath i = Some CHR ''[''
                   \<and> charAt splittedPath (i + 1) = Some CHR '']''
           then query_type_loop fuel splittedPath (st\<lparr>qs_index := Suc (i + 2), qs_isArray := True\<rparr>)
           else if charAt splittedPath i = Some CHR ''(''
           then (case query_paren_loop fuel splittedPath
                        (st\<lparr>qs_index := ignoreSpaces splittedPath (Suc i)\<rparr>) of
                   None \<Rightarrow> None
                 | Some st1 \<Rightarrow>
                     query_type_loop fuel splittedPath
                       (st1\<lparr>qs_index := Suc (qs_index st1),
                            queryParamTypes :=
                              (if charAt splittedPath (qs_index st1) = Some CHR '')''
                               then queryParamTypes st1 @ [queryParamType st1]
                               else queryParamTypes st1)\<rparr>))
           else query_type_loop fuel splittedPath
                  (st\<lparr>qs_index := Suc i,
                      queryParamType := append_char (queryParamType st) (charAt splittedPath i)\<rparr>)
      else Some st)"

text \<open>The loop of line 276: one \<^verbatim>\<open>name=spec\<close> pair.\<close>

fun query_pair_loop :: "nat \<Rightarrow> string \<Rightarrow> query_scan \<Rightarrow> query_scan option" where
  "query_pair_loop 0 splittedPath st = None"
| "query_pair_loop (Suc fuel) splittedPath st =
     (if hasNotReachedEndOrNextQueryParam splittedPath (qs_index st)
      then
        let i = ignoreSpaces splittedPath (qs_index st)
        in if charAt splittedPath i = Some CHR ''&''
           then query_pair_loop fuel splittedPath (st\<lparr>qs_index := Suc i\<rparr>)
           else if charAt splittedPath i = Some CHR ''=''
           then (case (if charAt splittedPath (Suc i) = Some CHR ''{''
                       then (case scan_until CHR ''}'' fuel splittedPath (Suc (Suc i))
                                    (queryParamRegex st) of
                               None \<Rightarrow> None
                             | Some (i2, rx) \<Rightarrow> Some (Suc i2, rx))
                       else Some (Suc i, queryParamRegex st)) of
                   None \<Rightarrow> None
                 | Some (i3, rx) \<Rightarrow>
                     (case query_type_loop fuel splittedPath
                             (st\<lparr>qs_index :=
                                   (if charAt splittedPath i3 = Some CHR '':'' then Suc i3 else i3),
                                 queryParamRegex := rx\<rparr>) of
                        None \<Rightarrow> None
                      | Some st1 \<Rightarrow> query_pair_loop fuel splittedPath st1))
           else query_pair_loop fuel splittedPath
                  (st\<lparr>qs_index := Suc i,
                      queryParamName := append_char (queryParamName st) (charAt splittedPath i)\<rparr>)
      else Some st)"

text \<open>The loop of line 269: one turn for each parameter.\<close>

fun query_params_loop ::
  "nat \<Rightarrow> string \<Rightarrow> (string \<times> query_param) list \<Rightarrow> nat
     \<Rightarrow> (nat \<times> (string \<times> query_param) list) option" where
  "query_params_loop 0 splittedPath params index = None"
| "query_params_loop (Suc fuel) splittedPath params index =
     (if index < length splittedPath
      then (case query_pair_loop fuel splittedPath
                   \<lparr>qs_index = index, queryParamName = [], queryParamType = [],
                    queryParamRegex = [], queryParamTypes = [], qs_isArray = False,
                    qs_isOptional = False\<rparr> of
              None \<Rightarrow> None
            | Some st \<Rightarrow>
                query_params_loop fuel splittedPath
                  (obj_set params (queryParamName st)
                     \<lparr>qp_type = (if queryParamTypes st = [] then [queryParamType st]
                                 else queryParamTypes st),
                      qp_isOptional = qs_isOptional st,
                      qp_isArray = qs_isArray st,
                      qp_regex = (if queryParamRegex st \<noteq> [] then Some (queryParamRegex st)
                                  else None)\<rparr>)
                  (Suc (qs_index st)))
      else Some (index, params))"

definition extractQueryParamsFromPath ::
  "nat \<Rightarrow> string \<Rightarrow> (string \<times> query_param) list \<Rightarrow> nat
     \<Rightarrow> (nat \<times> (string \<times> query_param) list) option" where
  "extractQueryParamsFromPath fuel splittedPath params initialIndex =
     query_params_loop fuel splittedPath params (Suc initialIndex)"

subsection \<open>\<^verbatim>\<open>extractUrlAndQueryParametersFromPath\<close>\<close>

record path_scan =
  ps_index :: nat
  partOfPath :: string
  ps_queryPath :: string
  ps_partsOfPath :: "path_part list"
  ps_urlParams :: "(string \<times> url_param) list"
  ps_queryParams :: "(string \<times> query_param) list"

record parsed_path =
  urlParams :: "(string \<times> url_param) list"
  queryParams :: "(string \<times> query_param) list"
  urlPath :: string
  queryPath :: string
  partsOfPath :: "path_part list"

text \<open>\<^verbatim>\<open>path.slice(startIndex, index)\<close> for \<open>startIndex \<le> index\<close>; the end is clamped.\<close>

definition slice :: "string \<Rightarrow> nat \<Rightarrow> nat \<Rightarrow> string" where
  "slice path startIndex index = take (index - startIndex) (drop startIndex path)"

text \<open>\<^verbatim>\<open>path.replace(pattern, '')\<close> with a string pattern: the first occurrence goes.\<close>

fun replace_first :: "string \<Rightarrow> string \<Rightarrow> string" where
  "replace_first pattern [] = []"
| "replace_first pattern (c # cs) =
     (if take (length pattern) (c # cs) = pattern then drop (length pattern) (c # cs)
      else c # replace_first pattern cs)"

text \<open>\<^verbatim>\<open>queryPath.replace(/^\?/g, '')\<close>.\<close>

definition strip_question_mark :: "string \<Rightarrow> string" where
  "strip_question_mark q = (case q of c # cs \<Rightarrow> (if c = CHR ''?'' then cs else q) | [] \<Rightarrow> [])"

text \<open>
  \<^verbatim>\<open>keysOfUrlParams[keysOfUrlParams.length - 1]\<close>. The object has a key when this is
  read, since \<^verbatim>\<open>extractUrlParamsFromPath\<close> has just stored one.
\<close>

definition lastInsertedKey :: "(string \<times> 'v) list \<Rightarrow> string" where
  "lastInsertedKey obj = (case rev (object_keys obj) of k # _ \<Rightarrow> k | [] \<Rightarrow> [])"

text \<open>The loop of line 427.\<close>

fun path_loop :: "nat \<Rightarrow> string \<Rightarrow> path_scan \<Rightarrow> path_scan option" where
  "path_loop 0 path st = None"
| "path_loop (Suc fuel) path st =
     (if length path > ps_index st
      then
        if charAt path (ps_index st) = Some CHR ''<''
        then (case extractUrlParamsFromPath fuel path (ps_urlParams st) (ps_index st) of
                None \<Rightarrow> None
              | Some (index, params) \<Rightarrow>
                  path_loop fuel path
                    (st\<lparr>ps_index := index, ps_urlParams := params,
                        ps_partsOfPath := ps_partsOfPath st
                          @ [\<lparr>part = lastInsertedKey params, isUrlParam = True\<rparr>]\<rparr>))
        else if charAt path (ps_index st) = Some CHR ''?''
        then (case extractQueryParamsFromPath fuel path (ps_queryParams st) (ps_index st) of
                None \<Rightarrow> None
              | Some (index, params) \<Rightarrow>
                  path_loop fuel path
                    (st\<lparr>ps_index := index, ps_queryParams := params,
                        ps_queryPath := slice path (ps_index st) index\<rparr>))
        else if charAt path (ps_index st) \<noteq> Some CHR ''/''
        then path_loop fuel path
               (st\<lparr>ps_index := Suc (ps_index st),
                   partOfPath := append_char (partOfPath st) (charAt path (ps_index st))\<rparr>)
        else path_loop fuel path
               (st\<lparr>ps_index := Suc (ps_index st),
                   ps_partsOfPath :=
                     (if partOfPath st \<noteq> []
                      then ps_partsOfPath st @ [\<lparr>part = partOfPath st, isUrlParam = False\<rparr>]
                      else ps_partsOfPath st),
                   partOfPath := []\<rparr>)
      else Some st)"

definition extractUrlAndQueryParametersFromPath :: "nat \<Rightarrow> string \<Rightarrow> parsed_path option" where
  "extractUrlAndQueryParametersFromPath fuel path =
     (case path_loop fuel path
             \<lparr>ps_index = 0, partOfPath = [], ps_queryPath = [], ps_partsOfPath = [],
              ps_urlParams = [], ps_queryParams = []\<rparr> of
        None \<Rightarrow> None
      | Some st \<Rightarrow>
          Some \<lparr>urlParams = ps_urlParams st,
                queryParams = ps_queryParams st,
                urlPath = replace_first (ps_queryPath st) path,
                queryPath = strip_question_mark (ps_queryPath st),
                partsOfPath =
                  (if partOfPath st \<noteq> []
                   then ps_partsOfPath st @ [\<lparr>part = partOfPath st, isUrlParam = False\<rparr>]
                   else ps_partsOfPath st)\<rparr>)"

text \<open>The value type of \<^verbatim>\<open>__completePaths\<close>.\<close>

record 'm complete_path =
  cp_middlewares :: "'m list"
  cp_urlParams :: "(string \<times> url_param) list"
  cp_queryPath :: string
  cp_urlPath :: string
  cp_queryParams :: "(string \<times> query_param) list"
  cp_partsOfPath :: "path_part list"
  cp_router :: ref
  cp_handlers :: ref

text \<open>
  The fields of \<^verbatim>\<open>BaseRouter\<close>. A \<^verbatim>\<open>Map\<close> is an association list in insertion
  order (\<^verbatim>\<open>set\<close> on a present key replaces the value where it stands).
  \<^verbatim>\<open>__handlers\<close> is \<^verbatim>\<open>undefined\<close> (\<open>None\<close>) or a reference to a handler object.
\<close>

record 'm router =
  r_path :: "string option"
  r_partsOfPath :: "path_part list"
  r_queryPath :: string
  r_queryParams :: "(string \<times> query_param) list"
  r_urlPath :: string
  r_urlParams :: "(string \<times> url_param) list"
  r_completePaths :: "(string \<times> 'm complete_path) list"
  r_parentRouter :: "ref option"
  r_wasCreatedFromNested :: bool
  r_children :: "ref list option"
  r_middlewares :: "'m list"
  r_handlers :: "ref option"

record ('m, 'h) store =
  routers :: "ref \<Rightarrow> 'm router"
  handler_objs :: "ref \<Rightarrow> 'h handler_obj"
  next_router :: ref
  next_obj :: ref

section \<open>Handler definition: \<^verbatim>\<open>MethodsRouter.get\<close> ... \<^verbatim>\<open>MethodsRouter.all\<close>\<close>

text \<open>
  \<^verbatim>\<open>const existingHandlers = this.__handlers ? this.__handlers : {}\<close>: the router's
  handler object, or a new empty one.
\<close>

definition existingHandlers :: "('m, 'h) store \<Rightarrow> ref \<Rightarrow> ref \<times> ('m, 'h) store" where
  "existingHandlers s this =
     (case r_handlers (routers s this) of
        Some obj \<Rightarrow> (obj, s)
      | None \<Rightarrow> (next_obj s,
          s\<lparr>handler_objs := (handler_objs s)(next_obj s := (\<lambda>_. None)),
            next_obj := Suc (next_obj s)\<rparr>))"

text \<open>
  The seven methods for one HTTP verb have the same body up to the key: delete
  \<^verbatim>\<open>all\<close> from the existing object (in place), then point \<^verbatim>\<open>__handlers\<close> at a new
  object holding the spread of the existing one and the handler under the key.
\<close>

definition define_handler :: "method_type \<Rightarrow> 'h \<Rightarrow> ref \<Rightarrow> ('m, 'h) store \<Rightarrow> ('m, 'h) store" where
  "define_handler key handler this s =
     (let (ex, s1) = existingHandlers s this;
          deleted = (handler_objs s1 ex)(MAll := None);
          s2 = s1\<lparr>handler_objs := (handler_objs s1)(ex := deleted)\<rparr>;
          fresh = next_obj s2
      in s2\<lparr>handler_objs := (handler_objs s2)(fresh := deleted(key \<mapsto> handler)),
            next_obj := Suc fresh,
            routers := (routers s2)(this := (routers s2 this)\<lparr>r_handlers := Some fresh\<rparr>)\<rparr>)"

definition get :: "'h \<Rightarrow> ref \<Rightarrow> ('m, 'h) store \<Rightarrow> ('m, 'h) store" where
  "get = define_handler MGet"

definition post :: "'h \<Rightarrow> ref \<Rightarrow> ('m, 'h) store \<Rightarrow> ('m, 'h) store" where
  "post = define_handler MPost"

definition delete :: "'h \<Rightarrow> ref \<Rightarrow> ('m, 'h) store \<Rightarrow> ('m, 'h) store" where
  "delete = define_handler MDelete"

definition options :: "'h \<Rightarrow> ref \<Rightarrow> ('m, 'h) store \<Rightarrow> ('m, 'h) store" where
  "options = define_handler MOptions"

definition head :: "'h \<Rightarrow> ref \<Rightarrow> ('m, 'h) store \<Rightarrow> ('m, 'h) store" where
  "head = define_handler MHead"

definition put :: "'h \<Rightarrow> ref \<Rightarrow> ('m, 'h) store \<Rightarrow> ('m, 'h) store" where
  "put = define_handler MPut"

definition patch :: "'h \<Rightarrow> ref \<Rightarrow> ('m, 'h) store \<Rightarrow> ('m, 'h) store" where
  "patch = define_handler MPatch"

text \<open>
  \<^verbatim>\<open>all\<close>: when a handler object exists, every key but \<^verbatim>\<open>all\<close> is deleted from it
  in place; \<^verbatim>\<open>__handlers\<close> then points at a new object with the spread of what is left
  and the handler under \<^verbatim>\<open>all\<close>.
\<close>

definition all :: "'h \<Rightarrow> ref \<Rightarrow> ('m, 'h) store \<Rightarrow> ('m, 'h) store" where
  "all handler this s =
     (let s0 = (case r_handlers (routers s this) of
                  None \<Rightarrow> s
                | Some obj \<Rightarrow>
                    s\<lparr>handler_objs := (handler_objs s)
                        (obj := (\<lambda>k. if k \<noteq> MAll then None else handler_objs s obj k))\<rparr>);
          (ex, s1) = existingHandlers s0 this;
          fresh = next_obj s1
      in s1\<lparr>handler_objs := (handler_objs s1)(fresh := (handler_objs s1 ex)(MAll \<mapsto> handler)),
            next_obj := Suc fresh,
            routers := (routers s1)(this := (routers s1 this)\<lparr>r_handlers := Some fresh\<rparr>)\<rparr>)"

text \<open>The handler set a router currently has (\<^verbatim>\<open>undefined\<close> reads as no handler).\<close>

definition handlers_of :: "('m, 'h) store \<Rightarrow> ref \<Rightarrow> 'h handler_obj" where
  "handlers_of s this =
     (case r_handlers (routers s this) of None \<Rightarrow> (\<lambda>_. None) | Some obj \<Rightarrow> handler_objs s obj)"

text \<open>A sequence of handler-defining calls on one router, by key.\<close>

fun call_method :: "method_type \<Rightarrow> 'h \<Rightarrow> ref \<Rightarrow> ('m, 'h) store \<Rightarrow> ('m, 'h) store" where
  "call_method MGet = get"
| "call_method MPost = post"
| "call_method MPut = put"
| "call_method MPatch = patch"
| "call_method MDelete = delete"
| "call_method MHead = head"
| "call_method MOptions = options"
| "call_method MAll = all"

fun calls :: "(method_type \<times> 'h) list \<Rightarrow> ref \<Rightarrow> ('m, 'h) store \<Rightarrow> ('m, 'h) store" where
  "calls [] this s = s"
| "calls ((key, handler) # cs) this s = calls cs this (call_method key handler this s)"

text \<open>Either \<^verbatim>\<open>all\<close> is absent, or no key of a specific method is present.\<close>

definition exclusive :: "'h handler_obj \<Rightarrow> bool" where
  "exclusive hs =
     (if hs MAll = None then True
      else list_all (\<lambda>k. hs k = None) [MGet, MPost, MPut, MPatch, MDelete, MHead, MOptions])"

text \<open>A store with no router configured and no handler object allocated.\<close>

definition empty_router :: "'m router" where
  "empty_router = \<lparr>r_path = None, r_partsOfPath = [], r_queryPath = [], r_queryParams = [],
     r_urlPath = [], r_urlParams = [], r_completePaths = [], r_parentRouter = None,
     r_wasCreatedFromNested = False, r_children = None, r_middlewares = [], r_handlers = None\<rparr>"

definition empty_store :: "('m, 'h) store" where
  "empty_store = \<lparr>routers = (\<lambda>_. empty_router), handler_objs = (\<lambda>_ _. None),
     next_router = 0, next_obj = 0\<rparr>"

section \<open>Router construction and composition\<close>

text \<open>
  \<^verbatim>\<open>new Map(entries)\<close> sets the entries one after the other; \<^verbatim>\<open>Map.set\<close> works on
  the association list as \<open>obj_set\<close> does.
\<close>

definition map_of_entries :: "(string \<times> 'v) list \<Rightarrow> (string \<times> 'v) list" where
  "map_of_entries es = foldl (\<lambda>m kv. obj_set m (fst kv) (snd kv)) [] es"

text \<open>
  The constructor, as \<^verbatim>\<open>BaseRouter.new\<close> and \<^verbatim>\<open>BaseRouter.newNested\<close> call it (no
  children argument). It scans \<^verbatim>\<open>path || ''\<close>, so it returns only if the scanner does.
\<close>

definition constructor :: "nat \<Rightarrow> string option \<Rightarrow> ('m, 'h) store \<Rightarrow> (ref \<times> ('m, 'h) store) option" where
  "constructor fuel path s =
     (case extractUrlAndQueryParametersFromPath fuel (case path of None \<Rightarrow> [] | Some p \<Rightarrow> p) of
        None \<Rightarrow> None
      | Some parsed \<Rightarrow>
          Some (next_router s,
                s\<lparr>routers := (routers s)(next_router s :=
                     \<lparr>r_path = path,
                      r_partsOfPath = partsOfPath parsed,
                      r_queryPath = queryPath parsed,
                      r_queryParams = map_of_entries (object_entries (queryParams parsed)),
                      r_urlPath = urlPath parsed,
                      r_urlParams = map_of_entries (object_entries (urlParams parsed)),
                      r_completePaths = [],
                      r_parentRouter = None,
                      r_wasCreatedFromNested = False,
                      r_children = None,
                      r_middlewares = [],
                      r_handlers = None\<rparr>),
                  next_router := Suc (next_router s)\<rparr>))"

definition new :: "nat \<Rightarrow> string option \<Rightarrow> ('m, 'h) store \<Rightarrow> (ref \<times> ('m, 'h) store) option" where
  "new fuel path s = constructor fuel path s"

definition newNested :: "nat \<Rightarrow> string \<Rightarrow> ('m, 'h) store \<Rightarrow> (ref \<times> ('m, 'h) store) option" where
  "newNested fuel path s =
     (case constructor fuel (Some path) s of
        None \<Rightarrow> None
      | Some (newRouter, s1) \<Rightarrow>
          Some (newRouter,
                s1\<lparr>routers := (routers s1)(newRouter :=
                     (routers s1 newRouter)\<lparr>r_wasCreatedFromNested := True\<rparr>)\<rparr>))"

text \<open>A template literal prints \<^verbatim>\<open>undefined\<close> for a path that is not defined.\<close>

definition template_text :: "string option \<Rightarrow> string" where
  "template_text path = (case path of None \<Rightarrow> ''undefined'' | Some p \<Rightarrow> p)"

definition set_completePath ::
  "('m, 'h) store \<Rightarrow> ref \<Rightarrow> string \<Rightarrow> 'm complete_path \<Rightarrow> ('m, 'h) store" where
  "set_completePath s router key entry =
     s\<lparr>routers := (routers s)(router :=
          (routers s router)\<lparr>r_completePaths :=
             obj_set (r_completePaths (routers s router)) key entry\<rparr>)\<rparr>"

text \<open>
  The two object literals that the loop stores: the one of line 200, for the child's
  own handlers, and the one of line 216, for a complete path of the child's table.
\<close>

definition direct_path :: "'m router \<Rightarrow> 'm router \<Rightarrow> ref \<Rightarrow> ref \<Rightarrow> 'm complete_path" where
  "direct_path R C child obj =
     \<lparr>cp_middlewares = r_middlewares R @ r_middlewares C,
      cp_urlParams = map_of_entries (r_urlParams R @ r_urlParams C),
      cp_queryPath = r_queryPath R @ ''&'' @ r_queryPath C,
      cp_urlPath = r_urlPath R @ r_urlPath C,
      cp_queryParams = map_of_entries (r_queryParams R @ r_queryParams C),
      cp_partsOfPath = r_partsOfPath R @ r_partsOfPath C,
      cp_router = child,
      cp_handlers = obj\<rparr>"

definition lifted_path ::
  "'m router \<Rightarrow> ref \<Rightarrow> string \<Rightarrow> string \<Rightarrow> 'm complete_path \<Rightarrow> 'm complete_path" where
  "lifted_path R child fullUrlPath fullQueryPath childPathData =
     \<lparr>cp_middlewares = r_middlewares R @ cp_middlewares childPathData,
      cp_urlParams = map_of_entries (r_urlParams R @ cp_urlParams childPathData),
      cp_queryPath = fullQueryPath @ ''&'' @ cp_queryPath childPathData,
      cp_urlPath = fullUrlPath @ cp_queryPath childPathData,
      cp_queryParams = map_of_entries (r_queryParams R @ cp_queryParams childPathData),
      cp_partsOfPath = r_partsOfPath R @ cp_partsOfPath childPathData,
      cp_router = child,
      cp_handlers = cp_handlers childPathData\<rparr>"

text \<open>
  The \<^verbatim>\<open>for ... of child.__completePaths.entries()\<close> loop of line 213. A \<^verbatim>\<open>Map\<close>
  iterator is live: it goes through the entries by position and sees what is set
  during the loop, which matters when \<^verbatim>\<open>router\<close> and \<^verbatim>\<open>child\<close> are the same object.
\<close>

fun child_paths_loop ::
  "nat \<Rightarrow> ('m, 'h) store \<Rightarrow> ref \<Rightarrow> ref \<Rightarrow> string \<Rightarrow> string \<Rightarrow> nat \<Rightarrow> ('m, 'h) store option" where
  "child_paths_loop 0 s router child fullUrlPath fullQueryPath position = None"
| "child_paths_loop (Suc fuel) s router child fullUrlPath fullQueryPath position =
     (if position < length (r_completePaths (routers s child))
      then child_paths_loop fuel
             (set_completePath s router
                (template_text (r_path (routers s router))
                   @ fst (r_completePaths (routers s child) ! position))
                (lifted_path (routers s router) child fullUrlPath fullQueryPath
                   (snd (r_completePaths (routers s child) ! position))))
             router child fullUrlPath fullQueryPath (Suc position)
      else Some s)"

text \<open>
  \<^verbatim>\<open>typeof child.__handlers === 'object' && Object.keys(child.__handlers).length > 0\<close>
\<close>

definition existsHandlersOnChild :: "('m, 'h) store \<Rightarrow> ref \<Rightarrow> bool" where
  "existsHandlersOnChild s child =
     (case r_handlers (routers s child) of
        None \<Rightarrow> False
      | Some obj \<Rightarrow> object_keys_methods (handler_objs s obj) \<noteq> [])"

text \<open>
  One turn of the \<^verbatim>\<open>while (router)\<close> loop of \<^verbatim>\<open>appendChildToParentRouter\<close>, up to
  the step to the parent. Both tests are made before anything is stored.
\<close>

definition store_direct_path :: "('m, 'h) store \<Rightarrow> ref \<Rightarrow> ref \<Rightarrow> ('m, 'h) store" where
  "store_direct_path s router child =
     (case r_handlers (routers s child) of
        None \<Rightarrow> s
      | Some obj \<Rightarrow>
          if existsHandlersOnChild s child
          then set_completePath s router
                 (r_urlPath (routers s router) @ r_urlPath (routers s child))
                 (direct_path (routers s router) (routers s child) child obj)
          else s)"

definition while_turn :: "nat \<Rightarrow> ('m, 'h) store \<Rightarrow> ref \<Rightarrow> ref \<Rightarrow> ('m, 'h) store option" where
  "while_turn fuel s router child =
     (if r_completePaths (routers s child) \<noteq> []
      then child_paths_loop fuel (store_direct_path s router child) router child
             (r_urlPath (routers s router) @ r_urlPath (routers s child))
             (r_queryPath (routers s router) @ ''&'' @ r_queryPath (routers s child))
             0
      else Some (store_direct_path s router child))"

text \<open>
  \<^verbatim>\<open>appendChildToParentRouter\<close>: the loop follows \<^verbatim>\<open>__parentRouter\<close>; the child stays
  the same in every turn.
\<close>

fun appendChildToParentRouter ::
  "nat \<Rightarrow> ('m, 'h) store \<Rightarrow> ref option \<Rightarrow> ref \<Rightarrow> ('m, 'h) store option" where
  "appendChildToParentRouter 0 s router child = None"
| "appendChildToParentRouter (Suc fuel) s None child = Some s"
| "appendChildToParentRouter (Suc fuel) s (Some router) child =
     (case while_turn fuel s router child of
        None \<Rightarrow> None
      | Some s2 \<Rightarrow>
          appendChildToParentRouter fuel s2 (r_parentRouter (routers s2 router)) child)"

text \<open>
  What one turn leaves in the table of \<open>router\<close> when \<open>router\<close> and \<open>child\<close> are two
  objects: the child's own path, if it has handlers, and then every complete path of
  the child's table under the router's path.
\<close>

definition composed_table ::
  "('m, 'h) store \<Rightarrow> ref \<Rightarrow> ref \<Rightarrow> (string \<times> 'm complete_path) list" where
  "composed_table s router child =
     foldl (\<lambda>table kd.
              obj_set table (template_text (r_path (routers s router)) @ fst kd)
                (lifted_path (routers s router) child
                   (r_urlPath (routers s router) @ r_urlPath (routers s child))
                   (r_queryPath (routers s router) @ ''&'' @ r_queryPath (routers s child))
                   (snd kd)))
       (r_completePaths (routers (store_direct_path s router child) router))
       (r_completePaths (routers s child))"

definition turn :: "('m, 'h) store \<Rightarrow> ref \<Rightarrow> ref \<Rightarrow> ('m, 'h) store" where
  "turn s router child =
     s\<lparr>routers := (routers s)(router :=
          (routers s router)\<lparr>r_completePaths := composed_table s router child\<rparr>)\<rparr>"

text \<open>
  \<^verbatim>\<open>nested\<close>. \<open>isNested\<close> says that the children were given as a function of the
  child factory, and \<open>childrenArray\<close> is the array given or returned by that function.
  \<^verbatim>\<open>new IncludesRouter(this.path)\<close> runs the scanner on the router's path once more;
  the object it makes is not referred to afterwards and is not kept in the store.
\<close>

fun nested_children ::
  "nat \<Rightarrow> bool \<Rightarrow> ref \<Rightarrow> ref list \<Rightarrow> ('m, 'h) store \<Rightarrow> ('m, 'h) store option" where
  "nested_children fuel isNested this [] s = Some s"
| "nested_children fuel isNested this (child # children) s =
     (case appendChildToParentRouter fuel
             (s\<lparr>routers := (routers s)(child :=
                  (routers s child)\<lparr>r_wasCreatedFromNested := isNested,
                                     r_parentRouter := Some this\<rparr>)\<rparr>)
             (Some this) child of
        None \<Rightarrow> None
      | Some s1 \<Rightarrow> nested_children fuel isNested this children s1)"

definition nested ::
  "nat \<Rightarrow> bool \<Rightarrow> ref list \<Rightarrow> ref \<Rightarrow> ('m, 'h) store \<Rightarrow> ('m, 'h) store option" where
  "nested fuel isNested childrenArray this s =
     (case extractUrlAndQueryParametersFromPath fuel
             (case r_path (routers s this) of None \<Rightarrow> [] | Some p \<Rightarrow> p) of
        None \<Rightarrow> None
      | Some _ \<Rightarrow>
          (case nested_children fuel isNested this childrenArray s of
             None \<Rightarrow> None
           | Some s1 \<Rightarrow>
               Some (s1\<lparr>routers := (routers s1)(this :=
                      (routers s1 this)\<lparr>r_children :=
                         (case r_children (routers s this) of
                            Some _ \<Rightarrow>
                              (case r_children (routers s1 this) of
                                 Some existing \<Rightarrow> Some (existing @ childrenArray)
                               | None \<Rightarrow> None)
                          | None \<Rightarrow> Some childrenArray)\<rparr>)\<rparr>)))"

text \<open>
  \<^verbatim>\<open>middlewares\<close>: the list of the router grows at its end; in every complete path of
  the router's own table the new middlewares go in front.
\<close>

definition middlewares :: "'m list \<Rightarrow> ref \<Rightarrow> ('m, 'h) store \<Rightarrow> ('m, 'h) store" where
  "middlewares definedMiddlewares this s =
     s\<lparr>routers := (routers s)(this :=
          (routers s this)\<lparr>
             r_middlewares := r_middlewares (routers s this) @ definedMiddlewares,
             r_completePaths :=
               map (\<lambda>kv. (fst kv,
                      (snd kv)\<lparr>cp_middlewares := definedMiddlewares @ cp_middlewares (snd kv)\<rparr>))
                 (r_completePaths (routers s this))\<rparr>)\<rparr>"

text \<open>Looking a key up in a table.\<close>

definition completePath :: "('m, 'h) store \<Rightarrow> ref \<Rightarrow> string \<Rightarrow> 'm complete_path option" where
  "completePath s router key = map_of (r_completePaths (routers s router)) key"

section \<open>Scenarios\<close>

text \<open>
  The three routers \<^verbatim>\<open>root = path('')\<close>, \<^verbatim>\<open>mid = pathNested()('/m')\<close> and
  \<^verbatim>\<open>leaf = pathNested()('/l').get(h)\<close>, each with its own middlewares, made in an
  empty store: the references are 0, 1 and 2.
\<close>

definition three_routers :: "'m list \<Rightarrow> 'm list \<Rightarrow> 'm list \<Rightarrow> 'h \<Rightarrow> ('m, 'h) store option" where
  "three_routers rootM midM leafM h =
     (case new 100 (Some []) empty_store of
        None \<Rightarrow> None
      | Some (root, s0) \<Rightarrow>
          (case newNested 100 ''/m'' (middlewares rootM root s0) of
             None \<Rightarrow> None
           | Some (mid, s1) \<Rightarrow>
               (case newNested 100 ''/l'' (middlewares midM mid s1) of
                  None \<Rightarrow> None
                | Some (leaf, s2) \<Rightarrow> Some (get h leaf (middlewares leafM leaf s2)))))"

text \<open>\<^verbatim>\<open>mid.nested([leaf])\<close> and then \<^verbatim>\<open>root.nested([mid])\<close>.\<close>

definition leaf_first :: "'m list \<Rightarrow> 'm list \<Rightarrow> 'm list \<Rightarrow> 'h \<Rightarrow> ('m, 'h) store option" where
  "leaf_first rootM midM leafM h =
     (case three_routers rootM midM leafM h of
        None \<Rightarrow> None
      | Some s \<Rightarrow>
          (case nested 100 False [2] 1 s of
             None \<Rightarrow> None
           | Some s1 \<Rightarrow> nested 100 False [1] 0 s1))"

text \<open>\<^verbatim>\<open>root.nested([mid])\<close> and then \<^verbatim>\<open>mid.nested([leaf])\<close>.\<close>

definition root_first :: "'m list \<Rightarrow> 'm list \<Rightarrow> 'm list \<Rightarrow> 'h \<Rightarrow> ('m, 'h) store option" where
  "root_first rootM midM leafM h =
     (case three_routers rootM midM leafM h of
        None \<Rightarrow> None
      | Some s \<Rightarrow>
          (case nested 100 False [1] 0 s of
             None \<Rightarrow> None
           | Some s1 \<Rightarrow> nested 100 False [2] 1 s1))"

text \<open>The middlewares of a complete path, when the table has the key.\<close>

definition mergedMiddlewares :: "('m, 'h) store option \<Rightarrow> ref \<Rightarrow> string \<Rightarrow> 'm list option" where
  "mergedMiddlewares s router key =
     (case s of
        None \<Rightarrow> None
      | Some s1 \<Rightarrow> map_option cp_middlewares (completePath s1 router key))"

definition table_keys :: "('m, 'h) store option \<Rightarrow> ref \<Rightarrow> string list option" where
  "table_keys s router = map_option (\<lambda>s1. map fst (r_completePaths (routers s1 router))) s"

text \<open>
  \<^verbatim>\<open>root = path('')\<close> (reference 0) and \<^verbatim>\<open>child = pathNested()('/a').get(h)\<close>
  (reference 1); \<^verbatim>\<open>middlewares\<close> is called on each of them before and after
  \<^verbatim>\<open>root.nested([child])\<close>.
\<close>

definition root_and_child ::
  "'m list \<Rightarrow> 'm list \<Rightarrow> 'm list \<Rightarrow> 'm list \<Rightarrow> 'h \<Rightarrow> ('m, 'h) store option" where
  "root_and_child rootBefore rootAfter childBefore childAfter h =
     (case new 100 (Some []) empty_store of
        None \<Rightarrow> None
      | Some (root, s0) \<Rightarrow>
          (case newNested 100 ''/a'' s0 of
             None \<Rightarrow> None
           | Some (child, s1) \<Rightarrow>
               (case nested 100 False [child] root
                       (middlewares rootBefore root
                          (middlewares childBefore child (get h child s1))) of
                  None \<Rightarrow> None
                | Some s2 \<Rightarrow>
                    Some (middlewares childAfter child (middlewares rootAfter root s2)))))"

text \<open>The handler that a complete path holds for a method, when the table has the key.\<close>

definition entry_handler ::
  "('m, 'h) store option \<Rightarrow> ref \<Rightarrow> string \<Rightarrow> method_type \<Rightarrow> 'h option option" where
  "entry_handler s router key m =
     (case s of
        None \<Rightarrow> None
      | Some s1 \<Rightarrow>
          map_option (\<lambda>e. handler_objs s1 (cp_handlers e) m) (completePath s1 router key))"

definition router_handler ::
  "('m, 'h) store option \<Rightarrow> ref \<Rightarrow> method_type \<Rightarrow> 'h option option" where
  "router_handler s router m = map_option (\<lambda>s1. handlers_of s1 router m) s"

section \<open>The parent chain\<close>

text \<open>
  The routers that \<^verbatim>\<open>appendChildToParentRouter\<close> visits from \<open>router\<close> are \<open>router\<close>
  and the routers reached from it along \<^verbatim>\<open>__parentRouter\<close>.
\<close>

definition parent_rel :: "('m, 'h) store \<Rightarrow> (ref \<times> ref) set" where
  "parent_rel s = {(x, y). r_parentRouter (routers s x) = Some y}"

definition ancestors_or_self :: "('m, 'h) store \<Rightarrow> ref \<Rightarrow> ref set" where
  "ancestors_or_self s router = {y. (router, y) \<in> (parent_rel s)\<^sup>*}"

text \<open>
  A router with its table left out, and: \<open>s'\<close> differs from \<open>s\<close> at most in the
  tables of the routers in \<open>A\<close>.
\<close>

definition forget_table :: "'m router \<Rightarrow> 'm router" where
  "forget_table R = R\<lparr>r_completePaths := []\<rparr>"

definition tables_changed_within ::
  "ref set \<Rightarrow> ('m, 'h) store \<Rightarrow> ('m, 'h) store \<Rightarrow> bool" where
  "tables_changed_within A s s' =
     (handler_objs s' = handler_objs s \<and> next_router s' = next_router s
      \<and> next_obj s' = next_obj s
      \<and> (\<forall>x. forget_table (routers s' x) = forget_table (routers s x))
      \<and> (\<forall>x. x \<in> A \<or> r_completePaths (routers s' x) = r_completePaths (routers s x)))"

section \<open>Dispatch: \<^verbatim>\<open>packages/server/src/server/routes.ts\<close>\<close>

subsection \<open>Values\<close>

text \<open>
  A JavaScript number that \<^verbatim>\<open>parseInt\<close> can return: an integer that the Number type
  holds exactly, a Number beyond \<open>2\<^sup>5\<^sup>3\<close> (which the embedding does not compute), or
  \<^verbatim>\<open>NaN\<close>. The sign of zero is not kept.
\<close>

datatype js_number = Num int | Inexact | NaN

datatype js_value = VUndefined | VString string | VNumber js_number | VObject nat

subsection \<open>\<^verbatim>\<open>parseInt\<close> with one argument\<close>

text \<open>
  The white space and line terminators among the code units below 256.
\<close>

definition is_js_space :: "char \<Rightarrow> bool" where
  "is_js_space c = (of_char c \<in> set [9, 10, 11, 12, 13, 32, 160 :: nat])"

definition digit_value :: "char \<Rightarrow> nat option" where
  "digit_value c =
     (let n = of_char c :: nat
      in if 48 \<le> n \<and> n \<le> 57 then Some (n - 48)
         else if 97 \<le> n \<and> n \<le> 102 then Some (n - 87)
         else if 65 \<le> n \<and> n \<le> 70 then Some (n - 55)
         else None)"

definition is_radix_digit :: "nat \<Rightarrow> char \<Rightarrow> bool" where
  "is_radix_digit R c = (case digit_value c of None \<Rightarrow> False | Some d \<Rightarrow> d < R)"

definition radix_value :: "nat \<Rightarrow> string \<Rightarrow> int" where
  "radix_value R Z =
     foldl (\<lambda>n c. n * int R + (case digit_value c of None \<Rightarrow> 0 | Some d \<Rightarrow> int d)) 0 Z"

definition parseInt :: "string \<Rightarrow> js_number" where
  "parseInt string =
     (let S = dropWhile is_js_space string;
          negative = (take 1 S = ''-'');
          S1 = (if take 1 S = ''+'' \<or> take 1 S = ''-'' then drop 1 S else S);
          hex = (take 2 S1 = ''0x'' \<or> take 2 S1 = ''0X'');
          S2 = (if hex then drop 2 S1 else S1);
          R = (if hex then 16 else 10);
          Z = takeWhile (is_radix_digit R) S2
      in if Z = [] then NaN
         else if radix_value R Z > 9007199254740992 then Inexact
         else if negative then Num (- radix_value R Z)
         else Num (radix_value R Z))"

subsection \<open>\<^verbatim>\<open>#getPathParamsParser\<close>\<close>

text \<open>
  A descriptor made by \<^verbatim>\<open>#getPathParameters\<close>. Its type is \<^verbatim>\<open>'string'\<close>,
  \<^verbatim>\<open>'number'\<close> or a \<^verbatim>\<open>RegExp\<close>; the \<^verbatim>\<open>test\<close> of the host's regular expressions
  is a parameter \<open>test\<close> of the parser.
\<close>

datatype 'rx path_param_type = TString | TNumber | TRegExp 'rx

record 'rx path_params =
  pp_value :: string
  paramName :: string
  paramType :: "'rx path_param_type"

text \<open>
  One turn of \<^verbatim>\<open>for (const pathParam of pathParams)\<close>. \<^verbatim>\<open>if (paramValue)\<close> holds
  for a raw value that is there and is not the empty string.
\<close>

definition parse_path_param ::
  "('rx \<Rightarrow> string \<Rightarrow> bool) \<Rightarrow> (string \<rightharpoonup> string) \<Rightarrow> (string \<rightharpoonup> js_value)
     \<Rightarrow> 'rx path_params \<Rightarrow> (string \<rightharpoonup> js_value)" where
  "parse_path_param test rawParams params pathParam =
     (case rawParams (paramName pathParam) of
        None \<Rightarrow> params
      | Some paramValue \<Rightarrow>
          if paramValue = [] then params
          else (case paramType pathParam of
                  TString \<Rightarrow> params(paramName pathParam \<mapsto> VString paramValue)
                | TNumber \<Rightarrow> params(paramName pathParam \<mapsto> VNumber (parseInt paramValue))
                | TRegExp rx \<Rightarrow>
                    if test rx paramValue
                    then params(paramName pathParam \<mapsto> VString paramValue)
                    else params))"

definition getPathParamsParser ::
  "('rx \<Rightarrow> string \<Rightarrow> bool) \<Rightarrow> 'rx path_params list \<Rightarrow> (string \<rightharpoonup> string)
     \<Rightarrow> (string \<rightharpoonup> js_value)" where
  "getPathParamsParser test pathParams rawParams =
     foldl (parse_path_param test rawParams) Map.empty pathParams"

subsection \<open>The middleware chain and the handler of a path\<close>

text \<open>
  What dispatch does to the world outside: it constructs middleware instances, reads
  the clock (\<^verbatim>\<open>performance.now()\<close>) and logs. The world records the class name of
  every instance constructed, in order, the log events, and how many times the clock
  was read; the time of the \<open>n\<close>-th reading is a parameter \<open>time_at\<close>, in whole
  milliseconds.
\<close>

record log_event =
  le_method :: string
  le_path :: string
  elapsedTime :: int

record world =
  instances :: "string list"
  log :: "log_event list"
  clock_reads :: nat

record 'raw request =
  req_method :: string
  req_path :: string
  req_raw :: 'raw
  pathParamsParser :: "((string \<rightharpoonup> string) \<Rightarrow> (string \<rightharpoonup> js_value)) option"

text \<open>
  A controller, and the \<^verbatim>\<open>run\<close> of a middleware instance: from a request, a value or
  an error (a rejected promise), with what it does to the world.
\<close>

type_synonym ('e, 'raw) controller = "'raw request \<Rightarrow> world \<Rightarrow> ('e + js_value) \<times> world"

text \<open>
  Modelled from the spec: the class \<^verbatim>\<open>Middleware\<close> (\<^verbatim>\<open>../middlewares\<close>) is not among
  the sources. An instance has an initialization operation that receives the
  next stage and may raise, and a run operation invoked with the request; what
  \<^verbatim>\<open>run\<close> does with the next stage is up to the class. Constructors complete.
\<close>

record ('e, 'raw) middleware_class =
  mw_name :: string
  mw_init :: "'e option"
  mw_run :: "('e, 'raw) controller \<Rightarrow> ('e, 'raw) controller"

definition construct :: "('e, 'raw) middleware_class \<Rightarrow> world \<Rightarrow> world" where
  "construct middleware w = w\<lparr>instances := instances w @ [mw_name middleware]\<rparr>"

text \<open>
  The loop of \<^verbatim>\<open>#getHandlerWithMiddlewaresAttached\<close> and the \<^verbatim>\<open>init\<close> after it:
  the next middleware is constructed, then the previous one is initialized with the
  next one's \<^verbatim>\<open>run\<close>; the last one is initialized with the handler.
\<close>

fun init_chain ::
  "('e, 'raw) middleware_class \<Rightarrow> ('e, 'raw) middleware_class list \<Rightarrow> world
     \<Rightarrow> 'e option \<times> world" where
  "init_chain initializedPreviousMiddleware [] w = (mw_init initializedPreviousMiddleware, w)"
| "init_chain initializedPreviousMiddleware (nextMiddleware # rest) w =
     (case mw_init initializedPreviousMiddleware of
        Some e \<Rightarrow> (Some e, construct nextMiddleware w)
      | None \<Rightarrow> init_chain nextMiddleware rest (construct nextMiddleware w))"

definition getHandlerWithMiddlewaresAttached ::
  "('e, 'raw) controller \<Rightarrow> ('e, 'raw) middleware_class list \<Rightarrow> world
     \<Rightarrow> ('e + ('e, 'raw) controller) \<times> world" where
  "getHandlerWithMiddlewaresAttached handler middlewareList w =
     (case middlewareList of
        [] \<Rightarrow> (Inr handler, w)
      | previousMiddleware # rest \<Rightarrow>
          (case init_chain previousMiddleware rest (construct previousMiddleware w) of
             (Some e, w1) \<Rightarrow> (Inl e, w1)
           | (None, w1) \<Rightarrow> (Inr (foldr mw_run middlewareList handler), w1)))"

definition performance_now :: "(nat \<Rightarrow> int) \<Rightarrow> world \<Rightarrow> int \<times> world" where
  "performance_now time_at w = (time_at (clock_reads w), w\<lparr>clock_reads := Suc (clock_reads w)\<rparr>)"

text \<open>
  \<^verbatim>\<open>#getHandlerForPath\<close> returns the function that the transport adapter calls for
  each request; \<open>translate\<close> is \<^verbatim>\<open>this.server.requests.translate\<close>.
\<close>

definition getHandlerForPath ::
  "(nat \<Rightarrow> int) \<Rightarrow> ('q \<Rightarrow> 'e + 'raw request) \<Rightarrow> ('e, 'raw) controller
     \<Rightarrow> ((string \<rightharpoonup> string) \<Rightarrow> (string \<rightharpoonup> js_value)) \<Rightarrow> ('e, 'raw) middleware_class list
     \<Rightarrow> 'q \<Rightarrow> world \<Rightarrow> ('e + js_value) \<times> world" where
  "getHandlerForPath time_at translate handler parser middlewareList req w =
     (let (elapsedStartTime, w1) = performance_now time_at w
      in case translate req of
           Inl e \<Rightarrow> (Inl e, w1)
         | Inr translated \<Rightarrow>
             (case getHandlerWithMiddlewaresAttached handler middlewareList w1 of
                (Inl e, w2) \<Rightarrow> (Inl e, w2)
              | (Inr requestHandler, w2) \<Rightarrow>
                  (case requestHandler (translated\<lparr>pathParamsParser := Some parser\<rparr>) w2 of
                     (Inl e, w3) \<Rightarrow> (Inl e, w3)
                   | (Inr response, w3) \<Rightarrow>
                       (let (elapsedEndTime, w4) = performance_now time_at w3
                        in (Inr (VString ''TESTE''),
                            w4\<lparr>log := log w4
                                 @ [\<lparr>le_method = req_method translated,
                                     le_path = req_path translated,
                                     elapsedTime = elapsedEndTime - elapsedStartTime\<rparr>]\<rparr>)))))"

text \<open>
  A run of two requests through the handler of one registered path: a middleware
  class \<^verbatim>\<open>M\<close> that passes the request on, and a controller that answers \<^verbatim>\<open>ok\<close>.
\<close>

definition new_world :: world where
  "new_world = \<lparr>instances = [], log = [], clock_reads = 0\<rparr>"

definition pass_on :: "(unit, unit) middleware_class" where
  "pass_on = \<lparr>mw_name = ''M'', mw_init = None, mw_run = (\<lambda>next. next)\<rparr>"

definition answer_ok :: "(unit, unit) controller" where
  "answer_ok request w = (Inr (VString ''ok''), w)"

definition translate_get :: "string \<Rightarrow> unit + unit request" where
  "translate_get p =
     Inr \<lparr>req_method = ''GET'', req_path = p, req_raw = (), pathParamsParser = None\<rparr>"

definition registered ::
  "string \<Rightarrow> world \<Rightarrow> (unit + js_value) \<times> world" where
  "registered =
     getHandlerForPath (\<lambda>n. 5 * int n) translate_get answer_ok
       (getPathParamsParser (\<lambda>rx v. False) ([] :: unit path_params list)) [pass_on]"

section \<open>Properties\<close>

subsection \<open>More fuel gives the same result\<close>

lemma scan_until_mono:
  "scan_until c n sp i acc = Some r \<Longrightarrow> n \<le> m \<Longrightarrow> scan_until c m sp i acc = Some r"
proof (induction n arbitrary: m i acc)
  case 0
  then show ?case by simp
next
  case (Suc n)
  then obtain m' where m: "m = Suc m'" "n \<le> m'" by (cases m) auto
  show ?case using Suc.prems(1) Suc.IH [OF _ m(2)]
    by (simp add: m Let_def split: if_splits)
qed

lemma url_type_loop_mono:
  "url_type_loop n sp i ty rx = Some r \<Longrightarrow> n \<le> m \<Longrightarrow> url_type_loop m sp i ty rx = Some r"
proof (induction n arbitrary: m i ty rx)
  case 0
  then show ?case by simp
next
  case (Suc n)
  then obtain m' where m: "m = Suc m'" "n \<le> m'" by (cases m) auto
  show ?case using Suc.prems(1) Suc.IH [OF _ m(2)] scan_until_mono [OF _ m(2)]
    by (auto simp: m Let_def split: if_splits option.splits)
qed

lemma url_param_loop_mono:
  "url_param_loop n sp i name ty rx = Some r \<Longrightarrow> n \<le> m \<Longrightarrow>
   url_param_loop m sp i name ty rx = Some r"
proof (induction n arbitrary: m i name ty rx)
  case 0
  then show ?case by simp
next
  case (Suc n)
  then obtain m' where m: "m = Suc m'" "n \<le> m'" by (cases m) auto
  show ?case
    using Suc.prems(1) Suc.IH [OF _ m(2)] scan_until_mono [OF _ m(2)] url_type_loop_mono [OF _ m(2)]
    by (auto simp: m Let_def split: if_splits option.splits)
qed

lemma extractUrlParamsFromPath_mono:
  "extractUrlParamsFromPath n sp ps i = Some r \<Longrightarrow> n \<le> m \<Longrightarrow>
   extractUrlParamsFromPath m sp ps i = Some r"
  using url_param_loop_mono [of n sp "Suc i" "[]" "[]" "[]" _ m]
  by (auto simp: extractUrlParamsFromPath_def split: option.splits)

lemma query_paren_loop_mono:
  "query_paren_loop n sp st = Some r \<Longrightarrow> n \<le> m \<Longrightarrow> query_paren_loop m sp st = Some r"
proof (induction n arbitrary: m st)
  case 0
  then show ?case by simp
next
  case (Suc n)
  then obtain m' where m: "m = Suc m'" "n \<le> m'" by (cases m) auto
  show ?case using Suc.prems(1) Suc.IH [OF _ m(2)]
    by (auto simp: m Let_def split: if_splits)
qed

lemma query_type_loop_mono:
  "query_type_loop n sp st = Some r \<Longrightarrow> n \<le> m \<Longrightarrow> query_type_loop m sp st = Some r"
proof (induction n arbitrary: m st)
  case 0
  then show ?case by simp
next
  case (Suc n)
  then obtain m' where m: "m = Suc m'" "n \<le> m'" by (cases m) auto
  show ?case using Suc.prems(1) Suc.IH [OF _ m(2)] query_paren_loop_mono [OF _ m(2)]
    by (auto simp: m Let_def split: if_splits option.splits)
qed

lemma query_pair_loop_mono:
  "query_pair_loop n sp st = Some r \<Longrightarrow> n \<le> m \<Longrightarrow> query_pair_loop m sp st = Some r"
proof (induction n arbitrary: m st)
  case 0
  then show ?case by simp
next
  case (Suc n)
  then obtain m' where m: "m = Suc m'" "n \<le> m'" by (cases m) auto
  show ?case
    using Suc.prems(1) Suc.IH [OF _ m(2)] query_type_loop_mono [OF _ m(2)]
      scan_until_mono [OF _ m(2)]
    by (auto simp: m Let_def split: if_splits option.splits)
qed

lemma query_params_loop_mono:
  "query_params_loop n sp ps i = Some r \<Longrightarrow> n \<le> m \<Longrightarrow> query_params_loop m sp ps i = Some r"
proof (induction n arbitrary: m ps i)
  case 0
  then show ?case by simp
next
  case (Suc n)
  then obtain m' where m: "m = Suc m'" "n \<le> m'" by (cases m) auto
  show ?case
    using Suc.prems(1) Suc.IH [OF _ m(2)] query_pair_loop_mono [OF _ m(2)]
    by (auto simp: m Let_def split: if_splits option.splits)
qed

lemma path_loop_mono:
  "path_loop n path st = Some r \<Longrightarrow> n \<le> m \<Longrightarrow> path_loop m path st = Some r"
proof (induction n arbitrary: m st)
  case 0
  then show ?case by simp
next
  case (Suc n)
  then obtain m' where m: "m = Suc m'" "n \<le> m'" by (cases m) auto
  show ?case
    using Suc.prems(1) Suc.IH [OF _ m(2)] extractUrlParamsFromPath_mono [OF _ m(2)]
      query_params_loop_mono [OF _ m(2)]
    by (auto simp: m Let_def extractQueryParamsFromPath_def split: if_splits option.splits)
qed

lemma extractUrlAndQueryParametersFromPath_mono:
  "extractUrlAndQueryParametersFromPath n path = Some r \<Longrightarrow> n \<le> m \<Longrightarrow>
   extractUrlAndQueryParametersFromPath m path = Some r"
  using path_loop_mono [of n path _ _ m]
  by (auto simp: extractUrlAndQueryParametersFromPath_def split: option.splits)


lemma child_paths_loop_mono:
  "child_paths_loop n s r c u q i = Some s' \<Longrightarrow> n \<le> m \<Longrightarrow>
   child_paths_loop m s r c u q i = Some s'"
proof (induction n arbitrary: m s i)
  case 0
  then show ?case by simp
next
  case (Suc n)
  then obtain m' where m: "m = Suc m'" "n \<le> m'" by (cases m) auto
  show ?case using Suc.prems(1) Suc.IH [OF _ m(2)]
    by (simp add: m split: if_splits)
qed

lemma while_turn_mono:
  "while_turn n s r c = Some s' \<Longrightarrow> n \<le> m \<Longrightarrow> while_turn m s r c = Some s'"
  using child_paths_loop_mono [of n _ r c _ _ 0 s' m]
  by (simp add: while_turn_def split: if_splits)

lemma appendChildToParentRouter_mono:
  "appendChildToParentRouter n s r c = Some s' \<Longrightarrow> n \<le> m \<Longrightarrow>
   appendChildToParentRouter m s r c = Some s'"
proof (induction n arbitrary: m s r)
  case 0
  then show ?case by simp
next
  case (Suc n)
  then obtain m' where m: "m = Suc m'" "n \<le> m'" by (cases m) auto
  show ?case
  proof (cases r)
    case None
    then show ?thesis using Suc.prems(1) by (simp add: m)
  next
    case (Some x)
    with Suc.prems(1) obtain s2 where
      t: "while_turn n s x c = Some s2" and
      w: "appendChildToParentRouter n s2 (r_parentRouter (routers s2 x)) c = Some s'"
      by (auto split: option.splits)
    from while_turn_mono [OF t m(2)] Suc.IH [OF w m(2)] show ?thesis
      by (simp add: m Some)
  qed
qed

lemma nested_children_mono:
  "nested_children n b this cs s = Some s' \<Longrightarrow> n \<le> m \<Longrightarrow>
   nested_children m b this cs s = Some s'"
proof (induction cs arbitrary: s)
  case Nil
  then show ?case by simp
next
  case (Cons c cs)
  let ?s1 = "s\<lparr>routers := (routers s)(c :=
                (routers s c)\<lparr>r_wasCreatedFromNested := b, r_parentRouter := Some this\<rparr>)\<rparr>"
  from Cons.prems(1) obtain s2 where
    w: "appendChildToParentRouter n ?s1 (Some this) c = Some s2" and
    rest: "nested_children n b this cs s2 = Some s'"
    by (auto split: option.splits)
  from appendChildToParentRouter_mono [OF w Cons.prems(2)] Cons.IH [OF rest Cons.prems(2)]
  show ?case by simp
qed

lemma nested_mono:
  assumes "nested n b cs this s = Some s'" "n \<le> m"
  shows "nested m b cs this s = Some s'"
proof -
  from assms(1) obtain parsed s1 where
    p: "extractUrlAndQueryParametersFromPath n
          (case r_path (routers s this) of None \<Rightarrow> [] | Some p \<Rightarrow> p) = Some parsed" and
    c: "nested_children n b this cs s = Some s1"
    by (auto simp: nested_def split: option.splits)
  from extractUrlAndQueryParametersFromPath_mono [OF p assms(2)]
    nested_children_mono [OF c assms(2)] assms(1) p c
  show ?thesis by (simp add: nested_def)
qed

lemma constructor_mono:
  assumes "constructor n p s = Some r" "n \<le> m"
  shows "constructor m p s = Some r"
proof -
  from assms(1) obtain parsed where
    p: "extractUrlAndQueryParametersFromPath n (case p of None \<Rightarrow> [] | Some p \<Rightarrow> p) = Some parsed"
    by (auto simp: constructor_def split: option.splits)
  from extractUrlAndQueryParametersFromPath_mono [OF p assms(2)] assms(1) p
  show ?thesis by (simp add: constructor_def)
qed

lemma handlers_of_define_handler:
  "handlers_of (define_handler key handler this s) this = ((handlers_of s this)(MAll := None))(key \<mapsto> handler)"
  by (auto simp: handlers_of_def define_handler_def existingHandlers_def Let_def fun_eq_iff
      split: option.splits)

lemma handlers_of_all:
  "handlers_of (all handler this s) this = (\<lambda>_. None)(MAll \<mapsto> handler)"
  by (auto simp: handlers_of_def all_def existingHandlers_def Let_def fun_eq_iff
      split: option.splits)

lemma handlers_of_call_method:
  "handlers_of (call_method key handler this s) this =
     (if key = MAll then (\<lambda>_. None)(MAll \<mapsto> handler)
      else ((handlers_of s this)(MAll := None))(key \<mapsto> handler))"
  by (cases key)
     (simp_all add: handlers_of_all handlers_of_define_handler get_def post_def put_def
        patch_def delete_def head_def options_def)

lemma exclusive_call_method: "exclusive (handlers_of (call_method key handler this s) this)"
  by (simp add: handlers_of_call_method exclusive_def)

lemma exclusive_calls:
  "cs \<noteq> [] \<Longrightarrow> exclusive (handlers_of (calls cs this s) this)"
proof (induction cs arbitrary: s)
  case Nil
  then show ?case by simp
next
  case (Cons c cs)
  obtain key handler where c: "c = (key, handler)" by (cases c)
  show ?case
  proof (cases "cs = []")
    case True
    then show ?thesis by (simp add: c exclusive_call_method)
  next
    case False
    then show ?thesis using Cons.IH by (simp add: c)
  qed
qed

subsection \<open>C4: the handler set of a router\<close>

text \<open>
  C4. Defining a handler for a specific method removes the \<^verbatim>\<open>all\<close> entry of the
  router's handler set and sets the method's entry; defining \<^verbatim>\<open>all\<close> leaves
  \<^verbatim>\<open>all\<close> as the only entry. So \<^verbatim>\<open>node.get(h1).all(h2)\<close> ends with
  \<^verbatim>\<open>{all: h2}\<close>, \<^verbatim>\<open>node.all(h2).get(h1)\<close> ends with \<^verbatim>\<open>{get: h1}\<close>, and after
  any non-empty sequence of handler-defining calls the set never holds \<^verbatim>\<open>all\<close>
  together with a specific method.
\<close>

theorem handler_set_state_machine:
  "handlers_of (all h2 this (get h1 this s)) this = (\<lambda>_. None)(MAll \<mapsto> h2)
   \<and> handlers_of (get h1 this (all h2 this s)) this = (\<lambda>_. None)(MGet \<mapsto> h1)
   \<and> (key \<noteq> MAll \<longrightarrow>
        handlers_of (call_method key h this s) this = ((handlers_of s this)(MAll := None))(key \<mapsto> h))
   \<and> handlers_of (call_method MAll h this s) this = (\<lambda>_. None)(MAll \<mapsto> h)
   \<and> (cs \<noteq> [] \<longrightarrow> exclusive (handlers_of (calls cs this s) this))"
proof -
  have "handlers_of (get h1 this (all h2 this s)) this = (\<lambda>_. None)(MGet \<mapsto> h1)"
    by (simp add: get_def handlers_of_define_handler handlers_of_all fun_eq_iff)
  then show ?thesis
    by (simp add: handlers_of_all handlers_of_call_method exclusive_calls)
qed

theorem handler_set_state_machine_witness:
  "MPost \<noteq> MAll
   \<and> handlers_of (call_method MPost (7::nat) 0 (all 5 0 (empty_store :: (nat, nat) store))) 0
       = (\<lambda>_. None)(MPost \<mapsto> 7)
   \<and> [(MGet, 1), (MAll, 2::nat)] \<noteq> []
   \<and> exclusive (handlers_of (calls [(MGet, 1), (MAll, 2::nat)] 0 (empty_store :: (nat, nat) store)) 0)"
  using handler_set_state_machine [of 2 0 1 "all 5 0 (empty_store :: (nat, nat) store)" MPost 7
      "[(MGet, 1), (MAll, 2)]"]
    handler_set_state_machine [of 2 0 1 "empty_store :: (nat, nat) store" MPost 7
      "[(MGet, 1), (MAll, 2)]"]
  by (simp add: handlers_of_all fun_eq_iff)

subsection \<open>The scanner inside a group that is never closed\<close>

lemma charAt_in_set: "charAt sp j = Some c \<Longrightarrow> c \<in> set sp"
  by (auto simp: charAt_def split: if_splits)

lemma ignoreSpaces_ge: "index \<le> ignoreSpaces sp index"
  by (simp add: ignoreSpaces_def)

lemma scan_until_never:
  "(\<forall>j\<ge>index. charAt sp j \<noteq> Some c) \<Longrightarrow> scan_until c fuel sp index acc = None"
proof (induction fuel arbitrary: index acc)
  case 0
  then show ?case by simp
next
  case (Suc fuel)
  have "\<forall>j\<ge>Suc (ignoreSpaces sp index). charAt sp j \<noteq> Some c"
    using Suc.prems ignoreSpaces_ge [of index sp] by auto
  then show ?case using Suc.IH Suc.prems by (simp add: Let_def)
qed

lemma scan_until_index:
  "scan_until c fuel sp index acc = Some (i, acc') \<Longrightarrow> index \<le> i \<and> charAt sp i = Some c"
proof (induction fuel arbitrary: index acc)
  case 0
  then show ?case by simp
next
  case (Suc fuel)
  show ?case
  proof (cases "charAt sp index = Some c")
    case True
    then show ?thesis using Suc.prems by simp
  next
    case False
    then have "scan_until c fuel sp (Suc (ignoreSpaces sp index))
        (append_char acc (charAt sp (ignoreSpaces sp index))) = Some (i, acc')"
      using Suc.prems by (simp add: Let_def)
    from Suc.IH [OF this] show ?thesis using ignoreSpaces_ge [of index sp] by auto
  qed
qed

lemma url_type_loop_index:
  "url_type_loop fuel sp index ty rx = Some (i, ty', rx') \<Longrightarrow> index \<le> i \<and> charAt sp i = Some CHR ''>''"
proof (induction fuel arbitrary: index ty rx)
  case 0
  then show ?case by simp
next
  case (Suc fuel)
  let ?i1 = "ignoreSpaces sp index"
  let ?i2 = "if charAt sp ?i1 = Some CHR '':'' then Suc ?i1 else ?i1"
  have le: "index \<le> ?i2" using ignoreSpaces_ge [of index sp] by simp
  show ?case
  proof (cases "charAt sp index = Some CHR ''>''")
    case True
    then show ?thesis using Suc.prems by simp
  next
    case False
    show ?thesis
    proof (cases "charAt sp ?i2 = Some CHR ''{''")
      case True
      with False Suc.prems obtain i3 r3 where
        a: "scan_until CHR ''}'' fuel sp (Suc ?i2) rx = Some (i3, r3)" and
        b: "url_type_loop fuel sp (Suc i3) ty r3 = Some (i, ty', rx')"
        by (simp add: Let_def split: option.splits prod.splits)
      from scan_until_index [OF a] Suc.IH [OF b] le show ?thesis by linarith
    next
      case nb: False
      with False Suc.prems obtain i3 t3 where
        a: "scan_until CHR ''>'' fuel sp ?i2 ty = Some (i3, t3)" and
        b: "url_type_loop fuel sp i3 t3 rx = Some (i, ty', rx')"
        by (simp add: Let_def split: option.splits prod.splits)
      from scan_until_index [OF a] Suc.IH [OF b] le show ?thesis by linarith
    qed
  qed
qed

lemma url_param_loop_index:
  "url_param_loop fuel sp index name ty rx = Some (i, name', ty', rx')
    \<Longrightarrow> index \<le> i \<and> charAt sp i = Some CHR ''>''"
proof (induction fuel arbitrary: index name ty rx)
  case 0
  then show ?case by simp
next
  case (Suc fuel)
  let ?i1 = "ignoreSpaces sp index"
  have le: "index \<le> ?i1" by (rule ignoreSpaces_ge)
  show ?case
  proof (cases "charAt sp index = Some CHR ''>''")
    case True
    then show ?thesis using Suc.prems by simp
  next
    case False
    show ?thesis
    proof (cases "charAt sp ?i1 = Some CHR '':''")
      case True
      with False Suc.prems obtain i2 t2 r2 where
        a: "url_type_loop fuel sp (Suc ?i1) ty rx = Some (i2, t2, r2)" and
        b: "url_param_loop fuel sp i2 name t2 r2 = Some (i, name', ty', rx')"
        by (simp add: Let_def split: option.splits prod.splits)
      from url_type_loop_index [OF a] Suc.IH [OF b] le show ?thesis by linarith
    next
      case nb: False
      with False Suc.prems obtain i2 n2 where
        a: "scan_until CHR '':'' fuel sp ?i1 name = Some (i2, n2)" and
        b: "url_param_loop fuel sp i2 n2 ty rx = Some (i, name', ty', rx')"
        by (simp add: Let_def split: option.splits prod.splits)
      from scan_until_index [OF a] Suc.IH [OF b] le show ?thesis by linarith
    qed
  qed
qed

lemma extractUrlParamsFromPath_unclosed:
  assumes "\<forall>j>initialIndex. charAt sp j \<noteq> Some CHR ''>''"
  shows "extractUrlParamsFromPath fuel sp params initialIndex = None"
proof (cases "url_param_loop fuel sp (Suc initialIndex) [] [] []")
  case None
  then show ?thesis by (simp add: extractUrlParamsFromPath_def)
next
  case (Some r)
  obtain i n t x where "r = (i, n, t, x)" by (cases r)
  with Some url_param_loop_index [of fuel sp "Suc initialIndex" "[]" "[]" "[]" i n t x] assms
  show ?thesis by auto
qed


lemma charAt_never:
  "c \<notin> set sp \<Longrightarrow> charAt sp j \<noteq> Some c"
  using charAt_in_set [of sp j c] by auto

subsection \<open>C5: a group that is never closed\<close>

text \<open>
  C5. The claim asks that a path with a \<^verbatim>\<open><\<close> or \<^verbatim>\<open>{\<close> that is never closed be
  rejected after a scan bounded by the length of the input. The scanner has no such
  bound inside a group: on \<^verbatim>\<open>/<id\<close> and on \<^verbatim>\<open>?q={a\<close> it does not return, whatever
  the fuel (it keeps appending \<^verbatim>\<open>undefined\<close> to the name or to the regex), and so
  declaring a router with the path \<^verbatim>\<open>/<id\<close> does not return either.
\<close>

theorem unclosed_group_never_returns:
  "extractUrlAndQueryParametersFromPath fuel ''/<id'' = None
   \<and> extractUrlAndQueryParametersFromPath fuel ''?q={a'' = None
   \<and> new fuel (Some ''/<id'') s = None"
proof -
  have u: "extractUrlParamsFromPath f ''/<id'' ps 1 = None" for f ps
    by (rule extractUrlParamsFromPath_unclosed) (simp add: charAt_never)
  have "path_loop f ''/<id'' st = None" if "ps_index st = 1" for st f
    using that u by (cases f) (simp_all add: charAt_def)
  then have "path_loop fuel ''/<id'' st = None" if "ps_index st = 0" for st
    using that by (cases fuel) (simp_all add: charAt_def)
  then have a: "extractUrlAndQueryParametersFromPath fuel ''/<id'' = None"
    by (simp add: extractUrlAndQueryParametersFromPath_def)
  have r: "scan_until CHR ''}'' f ''?q={a'' 4 acc = None" for f acc
    by (rule scan_until_never) (simp add: charAt_never)
  have "query_pair_loop f ''?q={a'' st = None" if "qs_index st = 2" for st f
    using that r
    by (cases f)
       (simp_all add: charAt_def hasNotReachedEndOrNextQueryParam_def ignoreSpaces_def
          eval_nat_numeral)
  then have "query_pair_loop f ''?q={a'' st = None" if "qs_index st = 1" for st f
    using that
    by (cases f)
       (simp_all add: charAt_def hasNotReachedEndOrNextQueryParam_def ignoreSpaces_def
          eval_nat_numeral)
  then have "query_params_loop f ''?q={a'' ps 1 = None" for f ps
    by (cases f) simp_all
  then have "path_loop fuel ''?q={a'' st = None" if "ps_index st = 0" for st
    using that by (cases fuel) (simp_all add: charAt_def extractQueryParamsFromPath_def)
  then have "extractUrlAndQueryParametersFromPath fuel ''?q={a'' = None"
    by (simp add: extractUrlAndQueryParametersFromPath_def)
  with a show ?thesis by (simp add: new_def constructor_def)
qed

subsection \<open>C7: the query template of the specification\<close>

lemma query_template_at_100:
  "extractUrlAndQueryParametersFromPath 100 ''?page=number&tags=string[]&sort=string(asc|desc)?''
   = Some \<lparr>urlParams = [],
       queryParams =
         [(''page'', \<lparr>qp_type = [''number''], qp_isOptional = False, qp_isArray = False,
                       qp_regex = None\<rparr>),
          (''tags'', \<lparr>qp_type = [''stringsort=stringasc'', ''desc''], qp_isOptional = True,
                       qp_isArray = True, qp_regex = None\<rparr>)],
       urlPath = [],
       queryPath = ''page=number&tags=string[]&sort=string(asc|desc)?'',
       partsOfPath = []\<rparr>"
  by code_simp

text \<open>
  C7. On \<^verbatim>\<open>?page=number&tags=string[]&sort=string(asc|desc)?\<close> the scanner returns
  (with any fuel from 100 on) a query-parameter object with the two keys \<^verbatim>\<open>page\<close>
  and \<^verbatim>\<open>tags\<close>. After \<^verbatim>\<open>[]\<close> the index moves by three, so the \<^verbatim>\<open>&\<close> is skipped
  and the text of the third pair runs into the type of \<^verbatim>\<open>tags\<close>; there is no key
  \<^verbatim>\<open>sort\<close>.
\<close>

theorem query_template_of_spec:
  "100 \<le> fuel \<Longrightarrow>
   extractUrlAndQueryParametersFromPath fuel ''?page=number&tags=string[]&sort=string(asc|desc)?''
   = Some \<lparr>urlParams = [],
       queryParams =
         [(''page'', \<lparr>qp_type = [''number''], qp_isOptional = False, qp_isArray = False,
                       qp_regex = None\<rparr>),
          (''tags'', \<lparr>qp_type = [''stringsort=stringasc'', ''desc''], qp_isOptional = True,
                       qp_isArray = True, qp_regex = None\<rparr>)],
       urlPath = [],
       queryPath = ''page=number&tags=string[]&sort=string(asc|desc)?'',
       partsOfPath = []\<rparr>"
  by (rule extractUrlAndQueryParametersFromPath_mono [OF query_template_at_100])

theorem query_template_of_spec_witness:
  "(100::nat) \<le> 100
   \<and> map_option (\<lambda>parsed. map fst (queryParams parsed))
         (extractUrlAndQueryParametersFromPath 100
            ''?page=number&tags=string[]&sort=string(asc|desc)?'') = Some [''page'', ''tags'']"
  using query_template_of_spec [of 100] by simp

subsection \<open>One turn of the composition loop in closed form\<close>

lemma set_completePath_frame:
  "handler_objs (set_completePath s r k e) = handler_objs s"
  "next_router (set_completePath s r k e) = next_router s"
  "next_obj (set_completePath s r k e) = next_obj s"
  "routers (set_completePath s r k e) r =
     (routers s r)\<lparr>r_completePaths := obj_set (r_completePaths (routers s r)) k e\<rparr>"
  "x \<noteq> r \<Longrightarrow> routers (set_completePath s r k e) x = routers s x"
  by (simp_all add: set_completePath_def)

lemma set_completePath_overwritten:
  "(set_completePath s r k e)\<lparr>routers := (routers (set_completePath s r k e))(r :=
       (routers (set_completePath s r k e) r)\<lparr>r_completePaths := t\<rparr>)\<rparr>
   = s\<lparr>routers := (routers s)(r := (routers s r)\<lparr>r_completePaths := t\<rparr>)\<rparr>"
  by (simp add: set_completePath_def)

lemma lifted_path_table [simp]:
  "lifted_path (R\<lparr>r_completePaths := t\<rparr>) = lifted_path R"
  by (simp add: lifted_path_def fun_eq_iff)

lemma child_paths_loop_fold:
  "router \<noteq> child \<Longrightarrow> length (r_completePaths (routers s child)) - position < fuel \<Longrightarrow>
   child_paths_loop fuel s router child u q position =
     Some (s\<lparr>routers := (routers s)(router := (routers s router)\<lparr>r_completePaths :=
        foldl (\<lambda>table kd.
                 obj_set table (template_text (r_path (routers s router)) @ fst kd)
                   (lifted_path (routers s router) child u q (snd kd)))
          (r_completePaths (routers s router))
          (drop position (r_completePaths (routers s child)))\<rparr>)\<rparr>)"
proof (induction fuel arbitrary: s position)
  case 0
  then show ?case by simp
next
  case (Suc fuel)
  let ?xs = "r_completePaths (routers s child)"
  show ?case
  proof (cases "position < length ?xs")
    case False
    then show ?thesis by simp
  next
    case True
    let ?k = "template_text (r_path (routers s router)) @ fst (?xs ! position)"
    let ?e = "lifted_path (routers s router) child u q (snd (?xs ! position))"
    let ?s1 = "set_completePath s router ?k ?e"
    have c: "routers ?s1 child = routers s child"
      using Suc.prems(1) by (simp add: set_completePath_frame)
    have f: "length (r_completePaths (routers ?s1 child)) - Suc position < fuel"
      using Suc.prems(2) True c by simp
    have d: "drop position ?xs = ?xs ! position # drop (Suc position) ?xs"
      using True by (simp add: Cons_nth_drop_Suc)
    have "child_paths_loop (Suc fuel) s router child u q position
          = child_paths_loop fuel ?s1 router child u q (Suc position)"
      using True by simp
    also have "\<dots> = Some (?s1\<lparr>routers := (routers ?s1)(router := (routers ?s1 router)\<lparr>r_completePaths :=
        foldl (\<lambda>table kd.
                 obj_set table (template_text (r_path (routers ?s1 router)) @ fst kd)
                   (lifted_path (routers ?s1 router) child u q (snd kd)))
          (r_completePaths (routers ?s1 router))
          (drop (Suc position) (r_completePaths (routers ?s1 child)))\<rparr>)\<rparr>)"
      by (rule Suc.IH [OF Suc.prems(1) f])
    also have "\<dots> = Some (s\<lparr>routers := (routers s)(router := (routers s router)\<lparr>r_completePaths :=
        foldl (\<lambda>table kd.
                 obj_set table (template_text (r_path (routers s router)) @ fst kd)
                   (lifted_path (routers s router) child u q (snd kd)))
          (r_completePaths (routers s router))
          (drop position ?xs)\<rparr>)\<rparr>)"
      unfolding set_completePath_overwritten c
      by (simp add: set_completePath_frame d)
    finally show ?thesis .
  qed
qed

lemma while_turn_turn:
  assumes "router \<noteq> child" "length (r_completePaths (routers s child)) < fuel"
  shows "while_turn fuel s router child = Some (turn s router child)"
proof -
  let ?s1 = "store_direct_path s router child"
  have c: "routers ?s1 child = routers s child"
    using assms(1) by (simp add: store_direct_path_def set_completePath_def split: option.splits)
  have h: "?s1\<lparr>routers := (routers ?s1)(router := (routers ?s1 router)\<lparr>r_completePaths := t\<rparr>)\<rparr>
         = s\<lparr>routers := (routers s)(router := (routers s router)\<lparr>r_completePaths := t\<rparr>)\<rparr>" for t
    by (auto simp: store_direct_path_def set_completePath_def fun_eq_iff split: option.splits)
  have p: "r_path (routers ?s1 router) = r_path (routers s router)"
    "lifted_path (routers ?s1 router) = lifted_path (routers s router)"
    by (auto simp: store_direct_path_def set_completePath_def lifted_path_def fun_eq_iff split: option.splits)
  show ?thesis
  proof (cases "r_completePaths (routers s child) = []")
    case True
    then show ?thesis
      using h [of "r_completePaths (routers ?s1 router)"]
      by (simp add: while_turn_def turn_def composed_table_def)
  next
    case False
    have "length (r_completePaths (routers ?s1 child)) - 0 < fuel"
      using assms(2) c by simp
    from child_paths_loop_fold [OF assms(1) this] False show ?thesis
      by (simp add: while_turn_def turn_def composed_table_def c p h)
  qed
qed

lemma turn_frame [simp]:
  "handler_objs (turn s r c) = handler_objs s"
  "next_router (turn s r c) = next_router s"
  "next_obj (turn s r c) = next_obj s"
  "routers (turn s r c) x =
     (if x = r then (routers s r)\<lparr>r_completePaths := composed_table s r c\<rparr> else routers s x)"
  by (simp_all add: turn_def)

lemma walk_top:
  assumes "r_parentRouter (routers s r) = None" "r \<noteq> c"
    "length (r_completePaths (routers s c)) + 2 \<le> fuel"
  shows "appendChildToParentRouter fuel s (Some r) c = Some (turn s r c)"
proof -
  obtain f where f: "fuel = Suc (Suc f)" and l: "length (r_completePaths (routers s c)) < Suc f"
    using assms(3) by (cases fuel; cases "fuel - 1") auto
  show ?thesis
    using while_turn_turn [OF assms(2) l] assms(1) by (simp add: f)
qed

lemma walk_step:
  assumes "r_parentRouter (routers s r) = Some p" "r \<noteq> c"
    "length (r_completePaths (routers s c)) + 2 \<le> fuel"
  shows "appendChildToParentRouter fuel s (Some r) c
         = appendChildToParentRouter (fuel - 1) (turn s r c) (Some p) c"
proof -
  obtain f where f: "fuel = Suc f" and l: "length (r_completePaths (routers s c)) < f"
    using assms(3) by (cases fuel) auto
  show ?thesis
    using while_turn_turn [OF assms(2) l] assms(1) by (simp add: f)
qed


subsection \<open>Evaluating the scenarios\<close>

lemma scan_empty_path:
  "extractUrlAndQueryParametersFromPath 100 [] =
     Some \<lparr>urlParams = [], queryParams = [], urlPath = [], queryPath = [], partsOfPath = []\<rparr>"
  by code_simp

lemma scan_m_path:
  "extractUrlAndQueryParametersFromPath 100 ''/m'' =
     Some \<lparr>urlParams = [], queryParams = [], urlPath = ''/m'', queryPath = [],
           partsOfPath = [\<lparr>part = ''m'', isUrlParam = False\<rparr>]\<rparr>"
  by code_simp

lemma scan_l_path:
  "extractUrlAndQueryParametersFromPath 100 ''/l'' =
     Some \<lparr>urlParams = [], queryParams = [], urlPath = ''/l'', queryPath = [],
           partsOfPath = [\<lparr>part = ''l'', isUrlParam = False\<rparr>]\<rparr>"
  by code_simp

lemma scan_a_path:
  "extractUrlAndQueryParametersFromPath 100 ''/a'' =
     Some \<lparr>urlParams = [], queryParams = [], urlPath = ''/a'', queryPath = [],
           partsOfPath = [\<lparr>part = ''a'', isUrlParam = False\<rparr>]\<rparr>"
  by code_simp

lemma no_entries: "object_entries [] = []" "map_of_entries [] = []"
  by (simp_all add: object_entries_def map_of_entries_def)

lemmas scenario_simps =
  new_def newNested_def constructor_def scan_empty_path scan_m_path scan_l_path scan_a_path
  no_entries empty_store_def empty_router_def middlewares_def get_def post_def
  define_handler_def existingHandlers_def nested_def walk_top walk_step turn_def
  composed_table_def store_direct_path_def direct_path_def lifted_path_def
  set_completePath_def existsHandlersOnChild_def object_keys_methods_def all_methods_def
  Let_def template_text_def completePath_def mergedMiddlewares_def table_keys_def
  entry_handler_def router_handler_def handlers_of_def

subsection \<open>C1: three levels\<close>

text \<open>
  C1, as the code has it. For \<^verbatim>\<open>root = path('')\<close>, \<^verbatim>\<open>mid('/m')\<close> and
  \<^verbatim>\<open>leaf('/l').get(h)\<close>, when the leaf is attached to \<^verbatim>\<open>mid\<close> and \<^verbatim>\<open>mid\<close> is then
  attached to the root, the root's table has the key \<^verbatim>\<open>/m/l\<close> with the middlewares
  of the root, of \<^verbatim>\<open>mid\<close> and of the leaf in that order, and the table of \<^verbatim>\<open>mid\<close>
  has the key \<^verbatim>\<open>/m/l\<close> (the key starts with the path of the router that owns the
  table) with the middlewares of \<^verbatim>\<open>mid\<close> and of the leaf.
\<close>

theorem three_level_leaf_first:
  "mergedMiddlewares (leaf_first rootM midM leafM h) 0 ''/m/l'' = Some (rootM @ midM @ leafM)
   \<and> mergedMiddlewares (leaf_first rootM midM leafM h) 1 ''/m/l'' = Some (midM @ leafM)"
  by (simp add: leaf_first_def three_routers_def scenario_simps)

text \<open>
  The claim as stated fails: in either order of attachment the only key of the table of
  \<^verbatim>\<open>mid\<close> is \<^verbatim>\<open>/m/l\<close>, so there is no entry keyed \<^verbatim>\<open>/l\<close>.
\<close>

theorem three_level_mid_key_counterexample:
  "table_keys (leaf_first [1::nat] [2] [3] (7::nat)) 1 = Some [''/m/l'']
   \<and> table_keys (root_first [1::nat] [2] [3] (7::nat)) 1 = Some [''/m/l'']"
  by (simp add: leaf_first_def root_first_def three_routers_def scenario_simps)

subsection \<open>C3: middlewares added after composition\<close>

lemma map_of_map_values:
  "map_of (map (\<lambda>kv. (fst kv, f (snd kv))) xs) k = map_option f (map_of xs k)"
  by (induction xs) auto

text \<open>
  C3, as the code has it. \<^verbatim>\<open>middlewares(ms)\<close> appends \<open>ms\<close> to the router's list and
  puts \<open>ms\<close> in front of the merged list of every entry of the router's own table; no
  other router changes. So \<^verbatim>\<open>R.middlewares([M1])\<close> after \<^verbatim>\<open>R.nested([C])\<close> gives
  \<^verbatim>\<open>[M1]\<close> for \<^verbatim>\<open>/a\<close>, and in general the entry of the root for \<^verbatim>\<open>/a\<close> holds the
  root's middlewares added after the composition, then those added before it, then
  the child's middlewares that were there at the composition.
\<close>

theorem middlewares_retrofit:
  fixes s :: "('m, 'h) store" and M1 :: 'm and h :: 'h and before :: "'m list"
  shows
  "completePath (middlewares ms this s) this key
     = map_option (\<lambda>e. e\<lparr>cp_middlewares := ms @ cp_middlewares e\<rparr>) (completePath s this key)
   \<and> r_middlewares (routers (middlewares ms this s) this) = r_middlewares (routers s this) @ ms
   \<and> (x \<noteq> this \<longrightarrow> routers (middlewares ms this s) x = routers s x)
   \<and> mergedMiddlewares (root_and_child [] [M1] [] [] h) 0 ''/a'' = Some [M1]
   \<and> mergedMiddlewares (root_and_child before after childM [] h) 0 ''/a''
       = Some (after @ before @ childM)"
proof -
  have a: "completePath (middlewares ms this s) this key
     = map_option (\<lambda>e. e\<lparr>cp_middlewares := ms @ cp_middlewares e\<rparr>) (completePath s this key)"
    using map_of_map_values
      [of "\<lambda>e. e\<lparr>cp_middlewares := ms @ cp_middlewares e\<rparr>" "r_completePaths (routers s this)" key]
    by (simp add: completePath_def middlewares_def)
  have b: "mergedMiddlewares (root_and_child b1 a1 c1 [] h) 0 ''/a'' = Some (a1 @ b1 @ c1)"
    for b1 a1 c1 :: "'m list"
    by (simp add: root_and_child_def scenario_simps)
  show ?thesis
    using a b [of "[]" "[M1]" "[]"] b [of before after childM]
    by (simp add: middlewares_def)
qed

theorem middlewares_retrofit_witness:
  "(1::nat) \<noteq> 0
   \<and> routers (middlewares [5::nat] 0 (empty_store :: (nat, nat) store)) 1
       = routers (empty_store :: (nat, nat) store) 1
   \<and> mergedMiddlewares (root_and_child [] [5::nat] [] [] (7::nat)) 0 ''/a'' = Some [5]"
  using middlewares_retrofit [where ms = "[5::nat]" and this = 0
      and s = "empty_store :: (nat, nat) store" and x = 1 and ?M1.0 = "5::nat" and h = "7::nat"]
  by simp

text \<open>
  The claim as stated fails: the merged list depends on where \<^verbatim>\<open>middlewares\<close> is
  called. With the root's middlewares \<^verbatim>\<open>[1, 2]\<close> in both runs, adding 2 after the
  composition gives \<^verbatim>\<open>[2, 1]\<close>; a middleware added to the child after the composition
  does not reach the root's entry.
\<close>

theorem middlewares_order_counterexample:
  "mergedMiddlewares (root_and_child [1::nat, 2] [] [] [] (7::nat)) 0 ''/a'' = Some [1, 2]
   \<and> mergedMiddlewares (root_and_child [1::nat] [2] [] [] (7::nat)) 0 ''/a'' = Some [2, 1]
   \<and> mergedMiddlewares (root_and_child [] [] [3::nat] [] (7::nat)) 0 ''/a'' = Some [3]
   \<and> mergedMiddlewares (root_and_child [] [] [] [3::nat] (7::nat)) 0 ''/a'' = Some []"
  by (simp add: root_and_child_def scenario_simps)

subsection \<open>C8: handlers defined after composition\<close>

lemma define_handler_tables:
  "r_completePaths (routers (define_handler key h this s) x) = r_completePaths (routers s x)"
  by (simp add: define_handler_def existingHandlers_def Let_def split: option.splits)

lemma all_tables:
  "r_completePaths (routers (all h this s) x) = r_completePaths (routers s x)"
  by (simp add: all_def existingHandlers_def Let_def split: option.splits)

lemma call_method_tables:
  "r_completePaths (routers (call_method key h this s) x) = r_completePaths (routers s x)"
  by (cases key)
     (simp_all add: define_handler_tables all_tables get_def post_def put_def patch_def
        delete_def head_def options_def)

lemma define_handler_objs:
  "obj < next_obj s \<Longrightarrow>
   handler_objs (define_handler key h this s) obj =
     (if r_handlers (routers s this) = Some obj then (handler_objs s obj)(MAll := None)
      else handler_objs s obj)"
  by (auto simp: define_handler_def existingHandlers_def Let_def split: option.splits)

lemma all_objs:
  "obj < next_obj s \<Longrightarrow>
   handler_objs (all h this s) obj =
     (if r_handlers (routers s this) = Some obj
      then (\<lambda>k. if k = MAll then handler_objs s obj MAll else None)
      else handler_objs s obj)"
  by (auto simp: all_def existingHandlers_def Let_def fun_eq_iff split: option.splits)

lemma call_method_objs:
  "obj < next_obj s \<Longrightarrow>
   handler_objs (call_method key h this s) obj =
     (if r_handlers (routers s this) = Some obj
      then (if key = MAll then (\<lambda>k. if k = MAll then handler_objs s obj MAll else None)
            else (handler_objs s obj)(MAll := None))
      else handler_objs s obj)"
  by (cases key)
     (simp_all add: define_handler_objs all_objs get_def post_def put_def patch_def
        delete_def head_def options_def)

text \<open>
  C8, as the code has it. A handler-defining call changes no route table: every entry
  keeps the reference to the handler object it was made with. The call points the
  router at a new handler object; an object that existed before the call is changed
  only if it was the router's, and then only by the deletions (of \<^verbatim>\<open>all\<close> when a
  specific method is defined, of the specific methods when \<^verbatim>\<open>all\<close> is defined), so the
  new handler does not show through an entry made before the call.
\<close>

theorem handler_definition_leaves_tables:
  fixes s :: "('m, 'h) store"
  shows
  "r_completePaths (routers (call_method key h this s) x) = r_completePaths (routers s x)
   \<and> (obj < next_obj s \<longrightarrow>
        handler_objs (call_method key h this s) obj =
          (if r_handlers (routers s this) = Some obj
           then (if key = MAll then (\<lambda>k. if k = MAll then handler_objs s obj MAll else None)
                 else (handler_objs s obj)(MAll := None))
           else handler_objs s obj))
   \<and> (obj < next_obj s \<and> key \<noteq> MAll \<longrightarrow>
        handler_objs (call_method key h this s) obj key = handler_objs s obj key)"
  using call_method_objs [of obj s key h this]
  by (simp add: call_method_tables)

theorem handler_definition_leaves_tables_witness:
  "(1::nat) < next_obj (get (7::nat) 0 (empty_store :: (nat, nat) store))
   \<and> MPost \<noteq> MAll
   \<and> handler_objs (call_method MPost 8 0 (get (7::nat) 0 (empty_store :: (nat, nat) store))) 1 MPost
       = None
   \<and> handler_objs (call_method MPost 8 0 (get (7::nat) 0 (empty_store :: (nat, nat) store))) 1 MGet
       = Some 7"
  using handler_definition_leaves_tables
    [where s = "get (7::nat) 0 (empty_store :: (nat, nat) store)" and key = MPost and h = 8
       and this = 0 and obj = 1 and x = 0]
  by (simp add: get_def define_handler_def existingHandlers_def empty_store_def empty_router_def
      Let_def)

text \<open>
  The claim as stated fails: after \<^verbatim>\<open>root.nested([child])\<close>, \<^verbatim>\<open>child.post(h2)\<close>
  gives the child a handler for \<^verbatim>\<open>post\<close> that the root's entry for \<^verbatim>\<open>/a\<close> does not
  have.
\<close>

theorem stale_handlers_counterexample:
  "entry_handler (map_option (post 8 1)
       (root_and_child [] [] [] [] (7::nat) :: (nat, nat) store option)) 0 ''/a'' MPost = Some None
   \<and> router_handler (map_option (post 8 1)
       (root_and_child [] [] [] [] (7::nat) :: (nat, nat) store option)) 1 MPost = Some (Some 8)"
  by (simp add: root_and_child_def scenario_simps)

subsection \<open>C10: what an attachment changes\<close>

lemma forget_table_update [simp]:
  "forget_table (R\<lparr>r_completePaths := t\<rparr>) = forget_table R"
  by (simp add: forget_table_def)

lemma forget_table_updates:
  "forget_table (A\<lparr>r_wasCreatedFromNested := F, r_parentRouter := P\<rparr>)
     = (forget_table A)\<lparr>r_wasCreatedFromNested := F, r_parentRouter := P\<rparr>"
  by (simp add: forget_table_def)

lemma forget_table_fields:
  assumes "forget_table A = forget_table B"
  shows "r_parentRouter A = r_parentRouter B" "A = B\<lparr>r_completePaths := r_completePaths A\<rparr>"
proof -
  have "r_parentRouter (forget_table A) = r_parentRouter (forget_table B)"
    using assms by simp
  then show "r_parentRouter A = r_parentRouter B" by (simp add: forget_table_def)
  have "(forget_table A)\<lparr>r_completePaths := r_completePaths A\<rparr>
      = (forget_table B)\<lparr>r_completePaths := r_completePaths A\<rparr>"
    using assms by simp
  then show "A = B\<lparr>r_completePaths := r_completePaths A\<rparr>" by (simp add: forget_table_def)
qed

lemma forget_table_eqD:
  assumes "forget_table A = forget_table B" "r_completePaths A = r_completePaths B"
  shows "A = B"
proof -
  have "A = (forget_table A)\<lparr>r_completePaths := r_completePaths A\<rparr>"
    by (simp add: forget_table_def)
  also have "\<dots> = (forget_table B)\<lparr>r_completePaths := r_completePaths B\<rparr>"
    using assms by simp
  also have "\<dots> = B" by (simp add: forget_table_def)
  finally show ?thesis .
qed

lemma forget_table_children:
  assumes "forget_table A = forget_table B"
  shows "A\<lparr>r_children := X\<rparr> = B\<lparr>r_completePaths := r_completePaths A, r_children := X\<rparr>"
proof -
  have "A\<lparr>r_children := X\<rparr>
      = (forget_table A)\<lparr>r_completePaths := r_completePaths A, r_children := X\<rparr>"
    by (simp add: forget_table_def)
  also have "\<dots> = (forget_table B)\<lparr>r_completePaths := r_completePaths A, r_children := X\<rparr>"
    using assms by simp
  also have "\<dots> = B\<lparr>r_completePaths := r_completePaths A, r_children := X\<rparr>"
    by (simp add: forget_table_def)
  finally show ?thesis .
qed

lemma tables_changed_within_refl: "tables_changed_within A s s"
  by (simp add: tables_changed_within_def)

lemma tables_changed_within_trans:
  assumes "tables_changed_within A s s1" "tables_changed_within B s1 s2" "A \<subseteq> C" "B \<subseteq> C"
  shows "tables_changed_within C s s2"
proof -
  have t: "x \<in> C \<or> r_completePaths (routers s2 x) = r_completePaths (routers s x)" for x
    using assms unfolding tables_changed_within_def by (metis subsetD)
  show ?thesis
    using assms(1,2) t unfolding tables_changed_within_def by simp
qed

lemma tables_changed_within_set:
  "tables_changed_within {r} s (set_completePath s r k e)"
  by (simp add: tables_changed_within_def set_completePath_def)

lemma tables_changed_within_parent:
  assumes "tables_changed_within A s s'"
  shows "parent_rel s' = parent_rel s"
proof -
  have "r_parentRouter (routers s' x) = r_parentRouter (routers s x)" for x
    using assms forget_table_fields(1) [of "routers s' x" "routers s x"]
    by (simp add: tables_changed_within_def)
  then show ?thesis by (simp add: parent_rel_def)
qed

lemma child_paths_loop_frame:
  "child_paths_loop fuel s r c u q i = Some s' \<Longrightarrow> tables_changed_within {r} s s'"
proof (induction fuel arbitrary: s i)
  case 0
  then show ?case by simp
next
  case (Suc fuel)
  show ?case
  proof (cases "i < length (r_completePaths (routers s c))")
    case False
    then show ?thesis using Suc.prems by (simp add: tables_changed_within_refl)
  next
    case True
    let ?s1 = "set_completePath s r
       (template_text (r_path (routers s r)) @ fst (r_completePaths (routers s c) ! i))
       (lifted_path (routers s r) c u q (snd (r_completePaths (routers s c) ! i)))"
    have x: "child_paths_loop fuel ?s1 r c u q (Suc i) = Some s'"
      using Suc.prems True by simp
    have "tables_changed_within {r} s ?s1" by (rule tables_changed_within_set)
    from this Suc.IH [OF x] show ?thesis
      by (rule tables_changed_within_trans) simp_all
  qed
qed

lemma store_direct_path_frame:
  "tables_changed_within {r} s (store_direct_path s r c)"
  by (simp add: store_direct_path_def tables_changed_within_set tables_changed_within_refl
      split: option.splits)

lemma while_turn_frame:
  assumes "while_turn fuel s r c = Some s'"
  shows "tables_changed_within {r} s s'"
proof (cases "r_completePaths (routers s c) = []")
  case True
  then show ?thesis using assms store_direct_path_frame [of r s c] by (simp add: while_turn_def)
next
  case False
  then have "child_paths_loop fuel (store_direct_path s r c) r c
      (r_urlPath (routers s r) @ r_urlPath (routers s c))
      (r_queryPath (routers s r) @ ''&'' @ r_queryPath (routers s c)) 0 = Some s'"
    using assms by (simp add: while_turn_def)
  from store_direct_path_frame child_paths_loop_frame [OF this] show ?thesis
    by (rule tables_changed_within_trans) simp_all
qed

lemma ancestors_or_self_self: "r \<in> ancestors_or_self s r"
  by (simp add: ancestors_or_self_def)

lemma ancestors_or_self_parent:
  "r_parentRouter (routers s r) = Some p \<Longrightarrow> ancestors_or_self s p \<subseteq> ancestors_or_self s r"
  by (auto simp: ancestors_or_self_def parent_rel_def intro: converse_rtrancl_into_rtrancl)

lemma cycle_step:
  assumes "(r, r) \<in> (parent_rel s)\<^sup>+" "r_parentRouter (routers s r) = Some p"
  shows "(p, p) \<in> (parent_rel s)\<^sup>+"
proof -
  from assms(1) obtain z where z: "(r, z) \<in> parent_rel s" "(z, r) \<in> (parent_rel s)\<^sup>*"
    by (meson tranclD)
  then have "z = p" using assms(2) by (simp add: parent_rel_def)
  moreover have "(r, p) \<in> parent_rel s" using assms(2) by (simp add: parent_rel_def)
  ultimately show ?thesis using z(2) by (meson rtrancl_into_trancl1)
qed

lemma walk_frame:
  "appendChildToParentRouter fuel s (Some r) c = Some s' \<Longrightarrow>
   tables_changed_within (ancestors_or_self s r) s s' \<and> (r, r) \<notin> (parent_rel s)\<^sup>+"
proof (induction fuel arbitrary: s r)
  case 0
  then show ?case by simp
next
  case (Suc fuel)
  from Suc.prems obtain s2 where
    t: "while_turn fuel s r c = Some s2" and
    rest: "appendChildToParentRouter fuel s2 (r_parentRouter (routers s2 r)) c = Some s'"
    by (auto split: option.splits)
  have f: "tables_changed_within {r} s s2" by (rule while_turn_frame [OF t])
  have p: "parent_rel s2 = parent_rel s" by (rule tables_changed_within_parent [OF f])
  have pr: "r_parentRouter (routers s2 r) = r_parentRouter (routers s r)"
    using p by (auto simp: parent_rel_def set_eq_iff) (metis option.exhaust option.inject)
  show ?case
  proof (cases "r_parentRouter (routers s r)")
    case None
    then have "s' = s2" using rest pr by (cases fuel) simp_all
    moreover have "(r, r) \<notin> (parent_rel s)\<^sup>+"
    proof
      assume "(r, r) \<in> (parent_rel s)\<^sup>+"
      then obtain z where "(r, z) \<in> parent_rel s" by (meson tranclD)
      then show False using None by (simp add: parent_rel_def)
    qed
    ultimately show ?thesis
      using f tables_changed_within_trans [OF f tables_changed_within_refl [of "{}" s2],
          of "ancestors_or_self s r"] ancestors_or_self_self [of r s]
      by simp
  next
    case (Some q)
    then have "appendChildToParentRouter fuel s2 (Some q) c = Some s'" using rest pr by simp
    from Suc.IH [OF this] have
      ih: "tables_changed_within (ancestors_or_self s2 q) s2 s'" "(q, q) \<notin> (parent_rel s2)\<^sup>+"
      by simp_all
    have a: "ancestors_or_self s2 q = ancestors_or_self s q" by (simp add: ancestors_or_self_def p)
    have "tables_changed_within (ancestors_or_self s r) s s'"
      using f ih(1)
    proof (rule tables_changed_within_trans)
      show "{r} \<subseteq> ancestors_or_self s r" by (simp add: ancestors_or_self_self)
      show "ancestors_or_self s2 q \<subseteq> ancestors_or_self s r"
        using ancestors_or_self_parent [OF Some] a by simp
    qed
    moreover have "(r, r) \<notin> (parent_rel s)\<^sup>+"
      using cycle_step [OF _ Some] ih(2) p by auto
    ultimately show ?thesis by simp
  qed
qed

lemma ancestors_or_self_eq:
  assumes "\<forall>x. x \<in> D \<or> r_parentRouter (routers t x) = r_parentRouter (routers s x)"
    and "D \<inter> ancestors_or_self t a = {}"
  shows "ancestors_or_self s a = ancestors_or_self t a"
proof -
  have e: "(z, y) \<in> parent_rel s \<longleftrightarrow> (z, y) \<in> parent_rel t" if "z \<in> ancestors_or_self t a" for z y
    using that assms by (auto simp: parent_rel_def)
  have "(a, y) \<in> (parent_rel s)\<^sup>* \<Longrightarrow> (a, y) \<in> (parent_rel t)\<^sup>*" for y
  proof (induction rule: rtrancl_induct)
    case base
    then show ?case by simp
  next
    case (step y z)
    then have "(y, z) \<in> parent_rel t" using e [of y z] by (simp add: ancestors_or_self_def)
    with step.IH show ?case by simp
  qed
  moreover have "(a, y) \<in> (parent_rel t)\<^sup>* \<Longrightarrow> (a, y) \<in> (parent_rel s)\<^sup>*" for y
  proof (induction rule: rtrancl_induct)
    case base
    then show ?case by simp
  next
    case (step y z)
    then have "(y, z) \<in> parent_rel s" using e [of y z] by (simp add: ancestors_or_self_def)
    with step.IH show ?case by simp
  qed
  ultimately show ?thesis by (auto simp: ancestors_or_self_def)
qed


lemma nested_children_frame:
  "nested_children fuel b this cs s = Some s' \<Longrightarrow>
     handler_objs s' = handler_objs s
     \<and> (\<forall>x. forget_table (routers s' x) =
            (if x \<in> set cs
             then forget_table ((routers s x)\<lparr>r_wasCreatedFromNested := b,
                                   r_parentRouter := Some this\<rparr>)
             else forget_table (routers s x)))
     \<and> (\<forall>x. x \<in> ancestors_or_self s this
              \<or> r_completePaths (routers s' x) = r_completePaths (routers s x))
     \<and> set cs \<inter> ancestors_or_self s this = {}
     \<and> ancestors_or_self s' this = ancestors_or_self s this"
proof (induction cs arbitrary: s)
  case Nil
  then show ?case by simp
next
  case (Cons c cs)
  let ?s1 = "s\<lparr>routers := (routers s)(c :=
                (routers s c)\<lparr>r_wasCreatedFromNested := b, r_parentRouter := Some this\<rparr>)\<rparr>"
  from Cons.prems obtain s2 where
    w: "appendChildToParentRouter fuel ?s1 (Some this) c = Some s2" and
    rest: "nested_children fuel b this cs s2 = Some s'"
    by (auto split: option.splits)
  from walk_frame [OF w] have
    f: "tables_changed_within (ancestors_or_self ?s1 this) ?s1 s2" and
    nc: "(this, this) \<notin> (parent_rel ?s1)\<^sup>+"
    by simp_all
  have c1: "c \<notin> ancestors_or_self ?s1 this"
  proof
    assume "c \<in> ancestors_or_self ?s1 this"
    then have "(this, c) \<in> (parent_rel ?s1)\<^sup>*" by (simp add: ancestors_or_self_def)
    moreover have "(c, this) \<in> parent_rel ?s1" by (simp add: parent_rel_def)
    ultimately have "(this, this) \<in> (parent_rel ?s1)\<^sup>+" by (meson rtrancl_into_trancl1)
    with nc show False by simp
  qed
  have a1: "ancestors_or_self s this = ancestors_or_self ?s1 this"
    by (rule ancestors_or_self_eq [where D = "{c}"]) (use c1 in auto)
  have a2: "ancestors_or_self s2 this = ancestors_or_self ?s1 this"
    using tables_changed_within_parent [OF f] by (simp add: ancestors_or_self_def)
  from Cons.IH [OF rest] have
    ih1: "handler_objs s' = handler_objs s2" and
    ih2: "\<And>x. forget_table (routers s' x) =
            (if x \<in> set cs
             then forget_table ((routers s2 x)\<lparr>r_wasCreatedFromNested := b,
                                   r_parentRouter := Some this\<rparr>)
             else forget_table (routers s2 x))" and
    ih3: "\<And>x. x \<in> ancestors_or_self s2 this
              \<or> r_completePaths (routers s' x) = r_completePaths (routers s2 x)" and
    ih4: "set cs \<inter> ancestors_or_self s2 this = {}" and
    ih5: "ancestors_or_self s' this = ancestors_or_self s2 this"
    by simp_all
  have f1: "handler_objs s2 = handler_objs s"
    using f by (simp add: tables_changed_within_def)
  have f2: "forget_table (routers s2 x) = forget_table (routers ?s1 x)" for x
    using f unfolding tables_changed_within_def by blast
  have f3: "x \<in> ancestors_or_self ?s1 this
      \<or> r_completePaths (routers s2 x) = r_completePaths (routers ?s1 x)" for x
    using f unfolding tables_changed_within_def by blast
  have g: "forget_table ((routers s2 x)\<lparr>r_wasCreatedFromNested := F, r_parentRouter := P\<rparr>)
         = forget_table ((routers ?s1 x)\<lparr>r_wasCreatedFromNested := F, r_parentRouter := P\<rparr>)"
    for x P F
    by (simp only: forget_table_updates f2)
  have r: "forget_table (routers s' x) =
            (if x \<in> set (c # cs)
             then forget_table ((routers s x)\<lparr>r_wasCreatedFromNested := b,
                                   r_parentRouter := Some this\<rparr>)
             else forget_table (routers s x))" for x
    by (cases "x = c"; cases "x \<in> set cs") (simp_all add: ih2 g f2)
  have t: "x \<in> ancestors_or_self s this
      \<or> r_completePaths (routers s' x) = r_completePaths (routers s x)" for x
  proof (cases "x \<in> ancestors_or_self s this")
    case True
    then show ?thesis by simp
  next
    case False
    then have "x \<notin> ancestors_or_self ?s1 this" "x \<notin> ancestors_or_self s2 this"
      using a1 a2 by simp_all
    then have "r_completePaths (routers s' x) = r_completePaths (routers ?s1 x)"
      using ih3 [of x] f3 [of x] by simp
    then show ?thesis by (cases "x = c") simp_all
  qed
  have d: "set (c # cs) \<inter> ancestors_or_self s this = {}"
    using c1 ih4 a1 a2 by auto
  have e: "ancestors_or_self s' this = ancestors_or_self s this"
    using ih5 a1 a2 by simp
  have h: "handler_objs s' = handler_objs s" using ih1 f1 by simp
  from h r t d e show ?case by blast
qed

lemma ancestors_or_self_root:
  assumes "r_parentRouter (routers s r) = None"
  shows "ancestors_or_self s r = {r}"
proof -
  have "y = r" if "(r, y) \<in> (parent_rel s)\<^sup>*" for y
    using that
  proof (cases rule: converse_rtranclE)
    case base
    then show ?thesis by simp
  next
    case (step z)
    then show ?thesis using assms by (simp add: parent_rel_def)
  qed
  then show ?thesis by (auto simp: ancestors_or_self_def)
qed

text \<open>
  C10. When \<^verbatim>\<open>this.nested(children)\<close> returns, every child is as it was but for its
  parent reference, now \<open>this\<close>, and its created-from-nested flag: path, parsed
  parameters, middlewares, handlers, children and its own table are unchanged. No
  handler object changes. The table of a router that is neither \<open>this\<close> nor one of
  its ancestors is unchanged, a router that is neither a child nor \<open>this\<close> changes
  in nothing but its table, and \<open>this\<close> changes in its table and its list of
  children.
\<close>

theorem nested_frame:
  assumes "nested fuel isNested childrenArray this s = Some s'"
  shows "(\<forall>child\<in>set childrenArray.
            routers s' child
              = (routers s child)\<lparr>r_parentRouter := Some this,
                                  r_wasCreatedFromNested := isNested\<rparr>)
         \<and> handler_objs s' = handler_objs s
         \<and> (\<forall>x. x \<notin> ancestors_or_self s this \<longrightarrow>
                r_completePaths (routers s' x) = r_completePaths (routers s x))
         \<and> (\<forall>x. x \<notin> set childrenArray \<and> x \<noteq> this \<longrightarrow>
                routers s' x = (routers s x)\<lparr>r_completePaths := r_completePaths (routers s' x)\<rparr>)
         \<and> routers s' this
               = (routers s this)\<lparr>r_completePaths := r_completePaths (routers s' this),
                                  r_children := r_children (routers s' this)\<rparr>"
proof -
  from assms obtain s1 where
    n: "nested_children fuel isNested this childrenArray s = Some s1" and
    s': "s' = s1\<lparr>routers := (routers s1)(this :=
                (routers s1 this)\<lparr>r_children :=
                   (case r_children (routers s this) of
                      Some _ \<Rightarrow>
                        (case r_children (routers s1 this) of
                           Some existing \<Rightarrow> Some (existing @ childrenArray)
                         | None \<Rightarrow> None)
                    | None \<Rightarrow> Some childrenArray)\<rparr>)\<rparr>"
    by (auto simp: nested_def split: option.splits)
  from nested_children_frame [OF n] have
    h: "handler_objs s1 = handler_objs s" and
    r: "\<And>x. forget_table (routers s1 x) =
            (if x \<in> set childrenArray
             then forget_table ((routers s x)\<lparr>r_wasCreatedFromNested := isNested,
                                   r_parentRouter := Some this\<rparr>)
             else forget_table (routers s x))" and
    t: "\<And>x. x \<in> ancestors_or_self s this
              \<or> r_completePaths (routers s1 x) = r_completePaths (routers s x)" and
    d: "set childrenArray \<inter> ancestors_or_self s this = {}"
    by simp_all
  have this_in: "this \<in> ancestors_or_self s this" by (rule ancestors_or_self_self)
  have a: "routers s' child
        = (routers s child)\<lparr>r_parentRouter := Some this, r_wasCreatedFromNested := isNested\<rparr>"
    if "child \<in> set childrenArray" for child
  proof -
    have na: "child \<notin> ancestors_or_self s this" using that d by auto
    then have ne: "child \<noteq> this" using this_in by auto
    have "forget_table (routers s1 child)
        = forget_table ((routers s child)\<lparr>r_wasCreatedFromNested := isNested,
                          r_parentRouter := Some this\<rparr>)"
      using r [of child] that by simp
    moreover have "r_completePaths (routers s1 child)
        = r_completePaths ((routers s child)\<lparr>r_wasCreatedFromNested := isNested,
                          r_parentRouter := Some this\<rparr>)"
      using t [of child] na by simp
    ultimately have "routers s1 child = (routers s child)\<lparr>r_wasCreatedFromNested := isNested,
                          r_parentRouter := Some this\<rparr>"
      by (rule forget_table_eqD)
    then show ?thesis using ne by (simp add: s')
  qed
  have b: "r_completePaths (routers s' x) = r_completePaths (routers s x)"
    if "x \<notin> ancestors_or_self s this" for x
  proof -
    have "x \<noteq> this" using that this_in by auto
    then show ?thesis using t [of x] that by (simp add: s')
  qed
  have c: "routers s' x = (routers s x)\<lparr>r_completePaths := r_completePaths (routers s' x)\<rparr>"
    if "x \<notin> set childrenArray" "x \<noteq> this" for x
  proof -
    have "forget_table (routers s1 x) = forget_table (routers s x)"
      using r [of x] that by simp
    from forget_table_fields(2) [OF this] that show ?thesis by (simp add: s')
  qed
  have e: "routers s' this
      = (routers s this)\<lparr>r_completePaths := r_completePaths (routers s' this),
                         r_children := r_children (routers s' this)\<rparr>"
  proof -
    have "this \<notin> set childrenArray" using d this_in by auto
    then have "forget_table (routers s1 this) = forget_table (routers s this)"
      using r [of this] by simp
    from forget_table_children [OF this] show ?thesis by (simp add: s')
  qed
  have h': "handler_objs s' = handler_objs s" using h by (simp add: s')
  from a b c h' e show ?thesis by blast
qed


theorem nested_frame_witness:
  "\<exists>s s'. three_routers [1::nat] [2] [3] (7::nat) = Some s
     \<and> nested 100 False [2] 1 s = Some s'
     \<and> routers s' 2 = (routers s 2)\<lparr>r_parentRouter := Some 1, r_wasCreatedFromNested := False\<rparr>
     \<and> handler_objs s' = handler_objs s
     \<and> 0 \<notin> ancestors_or_self s 1
     \<and> r_completePaths (routers s' 0) = r_completePaths (routers s 0)
     \<and> routers s' 0 = (routers s 0)\<lparr>r_completePaths := r_completePaths (routers s' 0)\<rparr>"
proof -
  have "\<exists>s. three_routers [1::nat] [2] [3] (7::nat) = Some s
          \<and> r_parentRouter (routers s 1) = None \<and> r_path (routers s 1) = Some ''/m''
          \<and> r_completePaths (routers s 2) = []"
    by (simp add: three_routers_def scenario_simps)
  then obtain s where
    s: "three_routers [1::nat] [2] [3] (7::nat) = Some s" and
    p: "r_parentRouter (routers s 1) = None" and
    m: "r_path (routers s 1) = Some ''/m''" and
    t: "r_completePaths (routers s 2) = []"
    by blast
  have "\<exists>s'. nested 100 False [2] 1 s = Some s'"
    using p m t by (simp add: nested_def scan_m_path walk_top)
  then obtain s' where n: "nested 100 False [2] 1 s = Some s'" by blast
  have a: "0 \<notin> ancestors_or_self s 1"
    using ancestors_or_self_root [OF p] by simp
  note f = nested_frame [OF n]
  have r2: "routers s' 2
      = (routers s 2)\<lparr>r_parentRouter := Some 1, r_wasCreatedFromNested := False\<rparr>"
    using f by simp
  have h: "handler_objs s' = handler_objs s" using f by simp
  have t0: "r_completePaths (routers s' 0) = r_completePaths (routers s 0)"
    using f a by blast
  have "(0::nat) \<notin> set [2] \<and> (0::nat) \<noteq> 1" by simp
  with f have r0: "routers s' 0 = (routers s 0)\<lparr>r_completePaths := r_completePaths (routers s' 0)\<rparr>"
    by blast
  from s n r2 h a t0 r0 show ?thesis by blast
qed

subsection \<open>C6: a number-typed path parameter\<close>

lemma parseInt_7: "parseInt ''7'' = Num 7"
  by (simp add: parseInt_def is_js_space_def is_radix_digit_def digit_value_def radix_value_def Let_def)

lemma parseInt_abc: "parseInt ''abc'' = NaN"
  by (simp add: parseInt_def is_js_space_def is_radix_digit_def digit_value_def radix_value_def Let_def)

lemma parse_path_param_other:
  "paramName q \<noteq> n \<Longrightarrow> parse_path_param test raw params q n = params n"
  by (simp add: parse_path_param_def split: option.splits path_param_type.splits)

lemma foldl_parse_other:
  "\<forall>q\<in>set ps. paramName q \<noteq> n \<Longrightarrow> foldl (parse_path_param test raw) params ps n = params n"
  by (induction ps arbitrary: params) (simp_all add: parse_path_param_other)

lemma foldl_parse_absent:
  "raw n = None \<or> raw n = Some [] \<Longrightarrow> foldl (parse_path_param test raw) params ps n = params n"
proof (induction ps arbitrary: params)
  case Nil
  then show ?case by simp
next
  case (Cons q ps)
  have "parse_path_param test raw params q n = params n"
    using Cons.prems
    by (cases "paramName q = n")
       (auto simp: parse_path_param_def split: option.splits path_param_type.splits)
  with Cons show ?case by simp
qed

lemma foldl_parse_number:
  assumes "distinct (map paramName ps)" "p \<in> set ps" "paramType p = TNumber"
    "raw (paramName p) = Some v" "v \<noteq> []"
  shows "foldl (parse_path_param test raw) params ps (paramName p) = Some (VNumber (parseInt v))"
  using assms(1,2)
proof (induction ps arbitrary: params)
  case Nil
  then show ?case by simp
next
  case (Cons q ps)
  show ?case
  proof (cases "q = p")
    case True
    have "\<forall>x\<in>set ps. paramName x \<noteq> paramName p"
      using Cons.prems(1) True by (auto simp: image_iff)
    moreover have "parse_path_param test raw params p
        = params(paramName p \<mapsto> VNumber (parseInt v))"
      using assms(3,4,5) by (simp add: parse_path_param_def)
    ultimately show ?thesis
      using True by (simp add: foldl_parse_other)
  next
    case False
    then have "p \<in> set ps" using Cons.prems(2) by simp
    moreover have "distinct (map paramName ps)" using Cons.prems(1) by simp
    ultimately show ?thesis using Cons.IH by simp
  qed
qed

text \<open>
  C6, as the code has it. For a number-typed descriptor (whose name no other
  descriptor of the path has) and a raw value that is there and not empty, the
  resolved map holds \<^verbatim>\<open>parseInt\<close> of the raw value under the parameter's name:
  7 for \<^verbatim>\<open>7\<close>, and \<^verbatim>\<open>NaN\<close> for \<^verbatim>\<open>abc\<close>. A name whose raw value is missing or
  empty is absent from the map. The parser is a total function: nothing is raised.
\<close>

theorem number_parameter_resolution:
  "(distinct (map paramName pathParams) \<and> p \<in> set pathParams \<and> paramType p = TNumber
      \<and> rawParams (paramName p) = Some v \<and> v \<noteq> [] \<longrightarrow>
      getPathParamsParser test pathParams rawParams (paramName p) = Some (VNumber (parseInt v)))
   \<and> (rawParams n = None \<or> rawParams n = Some [] \<longrightarrow>
      getPathParamsParser test pathParams rawParams n = None)
   \<and> parseInt ''7'' = Num 7
   \<and> parseInt ''abc'' = NaN"
  using foldl_parse_number [of pathParams p rawParams v test Map.empty]
    foldl_parse_absent [of rawParams n test Map.empty pathParams]
  by (simp add: getPathParamsParser_def parseInt_7 parseInt_abc)

theorem number_parameter_resolution_witness:
  "distinct (map paramName [\<lparr>pp_value = ''<id: number>'', paramName = ''id'', paramType = TNumber :: unit path_param_type\<rparr>])
   \<and> getPathParamsParser (\<lambda>rx v. False)
        [\<lparr>pp_value = ''<id: number>'', paramName = ''id'', paramType = TNumber :: unit path_param_type\<rparr>]
        [''id'' \<mapsto> ''7''] ''id'' = Some (VNumber (Num 7))
   \<and> getPathParamsParser (\<lambda>rx v. False)
        [\<lparr>pp_value = ''<id: number>'', paramName = ''id'', paramType = TNumber :: unit path_param_type\<rparr>]
        [''id'' \<mapsto> ''7''] ''slug'' = None"
  using number_parameter_resolution
    [where pathParams = "[\<lparr>pp_value = ''<id: number>'', paramName = ''id'', paramType = TNumber :: unit path_param_type\<rparr>]"
       and p = "\<lparr>pp_value = ''<id: number>'', paramName = ''id'', paramType = TNumber :: unit path_param_type\<rparr>"
       and rawParams = "[''id'' \<mapsto> ''7'']" and v = "''7''" and n = "''slug''"
       and test = "\<lambda>rx v. False"]
  by simp

text \<open>
  The claim as stated fails: for the raw value \<^verbatim>\<open>abc\<close> the resolved map has the key
  \<^verbatim>\<open>id\<close>, with the value \<^verbatim>\<open>NaN\<close>.
\<close>

theorem failed_parse_is_kept_counterexample:
  "getPathParamsParser (\<lambda>rx v. False)
     [\<lparr>pp_value = ''<id: number>'', paramName = ''id'', paramType = TNumber :: unit path_param_type\<rparr>]
     [''id'' \<mapsto> ''abc''] ''id'' = Some (VNumber NaN)"
  by (simp add: getPathParamsParser_def parse_path_param_def parseInt_abc)

subsection \<open>C2: when middlewares are instantiated\<close>

lemma init_chain_ok:
  "list_all (\<lambda>m. mw_init m = None) (previous # rest) \<Longrightarrow>
   init_chain previous rest w = (None, w\<lparr>instances := instances w @ map mw_name rest\<rparr>)"
  by (induction rest arbitrary: previous w) (simp_all add: construct_def)

lemma attach_ok:
  assumes "list_all (\<lambda>m. mw_init m = None) ms"
  shows "getHandlerWithMiddlewaresAttached handler ms w
     = (Inr (foldr mw_run ms handler), w\<lparr>instances := instances w @ map mw_name ms\<rparr>)"
proof (cases ms)
  case Nil
  then show ?thesis by (simp add: getHandlerWithMiddlewaresAttached_def)
next
  case (Cons m rest)
  then show ?thesis
    using init_chain_ok [of m rest "construct m w"] assms
    by (simp add: getHandlerWithMiddlewaresAttached_def construct_def)
qed

lemma getHandlerForPath_translated:
  assumes "list_all (\<lambda>m. mw_init m = None) middlewareList" "translate req = Inr translated"
  shows "getHandlerForPath time_at translate handler parser middlewareList req w =
     (case foldr mw_run middlewareList handler (translated\<lparr>pathParamsParser := Some parser\<rparr>)
             (w\<lparr>clock_reads := Suc (clock_reads w),
                instances := instances w @ map mw_name middlewareList\<rparr>) of
        (Inl e, w3) \<Rightarrow> (Inl e, w3)
      | (Inr response, w3) \<Rightarrow>
          (Inr (VString ''TESTE''),
           w3\<lparr>clock_reads := Suc (clock_reads w3),
              log := log w3
                @ [\<lparr>le_method = req_method translated, le_path = req_path translated,
                    elapsedTime = time_at (clock_reads w3) - time_at (clock_reads w)\<rparr>]\<rparr>))"
  using assms
  by (simp add: getHandlerForPath_def performance_now_def attach_ok Let_def
      split: prod.splits sum.splits)

text \<open>
  C2, as the code has it. \<^verbatim>\<open>#getHandlerForPath\<close> constructs nothing when the route
  is registered: it returns the per-request function. Every call of that function
  builds the chain anew, so (when the initializations complete) it constructs one
  new instance of each middleware of the list, in order, and runs the request
  through these new instances.
\<close>

theorem instances_per_request:
  "(list_all (\<lambda>m. mw_init m = None) middlewareList \<longrightarrow>
      getHandlerWithMiddlewaresAttached handler middlewareList w
        = (Inr (foldr mw_run middlewareList handler),
           w\<lparr>instances := instances w @ map mw_name middlewareList\<rparr>))
   \<and> (list_all (\<lambda>m. mw_init m = None) middlewareList \<and> translate req = Inr translated \<longrightarrow>
      getHandlerForPath time_at translate handler parser middlewareList req w =
        (case foldr mw_run middlewareList handler (translated\<lparr>pathParamsParser := Some parser\<rparr>)
                (w\<lparr>clock_reads := Suc (clock_reads w),
                   instances := instances w @ map mw_name middlewareList\<rparr>) of
           (Inl e, w3) \<Rightarrow> (Inl e, w3)
         | (Inr response, w3) \<Rightarrow>
             (Inr (VString ''TESTE''),
              w3\<lparr>clock_reads := Suc (clock_reads w3),
                 log := log w3
                   @ [\<lparr>le_method = req_method translated, le_path = req_path translated,
                       elapsedTime = time_at (clock_reads w3) - time_at (clock_reads w)\<rparr>]\<rparr>)))"
  using attach_ok [of middlewareList handler w]
    getHandlerForPath_translated [of middlewareList translate req translated time_at handler parser w]
  by simp

theorem instances_per_request_witness:
  "list_all (\<lambda>m. mw_init m = None) [pass_on]
   \<and> translate_get ''/a''
       = Inr \<lparr>req_method = ''GET'', req_path = ''/a'', req_raw = (), pathParamsParser = None\<rparr>
   \<and> getHandlerWithMiddlewaresAttached answer_ok [pass_on] new_world
       = (Inr (foldr mw_run [pass_on] answer_ok),
          new_world\<lparr>instances := instances new_world @ map mw_name [pass_on]\<rparr>)
   \<and> instances (snd (registered ''/a'' new_world)) = [''M'']"
  using instances_per_request [where middlewareList = "[pass_on]" and handler = answer_ok
      and w = new_world and translate = translate_get and req = "''/a''"
      and translated = "\<lparr>req_method = ''GET'', req_path = ''/a'', req_raw = (),
                          pathParamsParser = None\<rparr>"
      and time_at = "\<lambda>n. 5 * int n"
      and parser = "getPathParamsParser (\<lambda>rx v. False) ([] :: unit path_params list)"]
  by (simp add: registered_def pass_on_def new_world_def translate_get_def answer_ok_def)

text \<open>
  The claim as stated fails: the first request constructs an instance of \<^verbatim>\<open>M\<close>, and
  the second request constructs another one.
\<close>

theorem instances_per_request_counterexample:
  "instances (snd (registered ''/a'' new_world)) = [''M'']
   \<and> instances (snd (registered ''/b'' (snd (registered ''/a'' new_world)))) = [''M'', ''M'']"
  by (simp add: registered_def getHandlerForPath_def getHandlerWithMiddlewaresAttached_def
      performance_now_def translate_get_def answer_ok_def pass_on_def new_world_def construct_def
      Let_def)

subsection \<open>C9: what the per-request handler returns\<close>

text \<open>
  C9. The claim asks that the per-request handler return the controller's result. For
  a controller that answers \<^verbatim>\<open>ok\<close> the handler built by \<^verbatim>\<open>#getHandlerForPath\<close> returns
  the text \<^verbatim>\<open>TESTE\<close>; the response is computed and then dropped. One log event with
  the method, the path and the elapsed time is added after the controller has
  answered.
\<close>

theorem per_request_result:
  "fst (answer_ok translated w) = Inr (VString ''ok'')
   \<and> registered ''/a'' new_world
       = (Inr (VString ''TESTE''),
          \<lparr>instances = [''M''],
           log = [\<lparr>le_method = ''GET'', le_path = ''/a'', elapsedTime = 5\<rparr>],
           clock_reads = 2\<rparr>)"
  by (simp add: registered_def getHandlerForPath_def getHandlerWithMiddlewaresAttached_def
      performance_now_def translate_get_def answer_ok_def pass_on_def new_world_def construct_def
      Let_def)

end
